theory Spec2Isabelle
  imports Main
begin

text \<open>
  A shallow embedding of the synchronisation core of TwitamaModoki: the navigation
  classifier (\<open>src/types/index.ts\<close>, \<open>utils/columnType\<close>), the rate-limit tracker
  (\<open>src/background/index.ts\<close>), the content filter engine (the content script's
  \<open>applyFilters\<close> and \<open>matchesFilter\<close>), and the title resolver and navigation
  watcher (\<open>src/hooks/useIframeUrlSync.ts\<close>, \<open>src/config/xSelectors.ts\<close>).
  Functions of the platform (\<open>new URL\<close>, \<open>new RegExp\<close>, \<open>Number\<close>, \<open>Date.now\<close>)
  are parameters of the functions that call them; exceptions are values (\<open>None\<close>,
  \<open>Denied\<close>); module-level state and refs are records passed in and returned.
\<close>

section \<open>Strings of the host language\<close>

text \<open>
  Program strings are modelled as \<^typ>\<open>string\<close>. Text outside ASCII (the Japanese
  column titles, the magnifier emoji) is written as its UTF-8 bytes; equality of strings
  is the same on both encodings.
  Searching for an ASCII character and cutting the string at its index, the other
  operations applied to such text, give the same text on both encodings as well.
  \<open>toLowerCase\<close> folds the letters A to Z, which is what the language does on the
  ASCII handles and header names it is applied to.
\<close>

definition lower_char :: "char \<Rightarrow> char" where
  "lower_char c =
     (let n = (of_char c :: nat) in if 65 \<le> n \<and> n \<le> 90 then char_of (n + 32) else c)"

definition toLowerCase :: "string \<Rightarrow> string" where
  "toLowerCase s = map lower_char s"

fun startsWith :: "string \<Rightarrow> string \<Rightarrow> bool" where
  "startsWith s [] = True"
| "startsWith [] (p # ps) = False"
| "startsWith (c # cs) (p # ps) = (c = p \<and> startsWith cs ps)"

fun any_suffix :: "(string \<Rightarrow> bool) \<Rightarrow> string \<Rightarrow> bool" where
  "any_suffix P [] = P []"
| "any_suffix P (c # cs) = (P (c # cs) \<or> any_suffix P cs)"

definition str_includes :: "string \<Rightarrow> string \<Rightarrow> bool" where
  "str_includes s t = any_suffix (\<lambda>v. startsWith v t) s"

text \<open>
  \<open>trim\<close> removes the white space and line terminators of the language from both
  ends: U+0009 to U+000D, U+0020, U+00A0, U+1680, U+2000 to U+200A, U+2028, U+2029,
  U+202F, U+205F, U+3000 and U+FEFF, here in their UTF-8 encodings. An encoding at the
  end of a UTF-8 string is a whole character, so the trailing side strips the reversed
  encodings from the reversed string.
\<close>

definition whiteSpace_utf8 :: "string list" where
  "whiteSpace_utf8 =
     [[CHR 0x09], [CHR 0x0A], [CHR 0x0B], [CHR 0x0C], [CHR 0x0D], [CHR 0x20],
      [CHR 0xC2, CHR 0xA0],
      [CHR 0xE1, CHR 0x9A, CHR 0x80],
      [CHR 0xE2, CHR 0x80, CHR 0x80], [CHR 0xE2, CHR 0x80, CHR 0x81],
      [CHR 0xE2, CHR 0x80, CHR 0x82], [CHR 0xE2, CHR 0x80, CHR 0x83],
      [CHR 0xE2, CHR 0x80, CHR 0x84], [CHR 0xE2, CHR 0x80, CHR 0x85],
      [CHR 0xE2, CHR 0x80, CHR 0x86], [CHR 0xE2, CHR 0x80, CHR 0x87],
      [CHR 0xE2, CHR 0x80, CHR 0x88], [CHR 0xE2, CHR 0x80, CHR 0x89],
      [CHR 0xE2, CHR 0x80, CHR 0x8A],
      [CHR 0xE2, CHR 0x80, CHR 0xA8], [CHR 0xE2, CHR 0x80, CHR 0xA9],
      [CHR 0xE2, CHR 0x80, CHR 0xAF],
      [CHR 0xE2, CHR 0x81, CHR 0x9F],
      [CHR 0xE3, CHR 0x80, CHR 0x80],
      [CHR 0xEF, CHR 0xBB, CHR 0xBF]]"

function strip :: "string list \<Rightarrow> string \<Rightarrow> string" where
  "strip ws s =
     (case find (\<lambda>w. w \<noteq> [] \<and> startsWith s w) ws of
        None \<Rightarrow> s
      | Some w \<Rightarrow> strip ws (drop (length w) s))"
  by pat_completeness auto
termination
proof (relation "measure (\<lambda>(ws, s). length s)")
  show "wf (measure (\<lambda>(ws, s). length s))" by simp
next
  fix ws :: "string list" and s w :: string
  assume "find (\<lambda>w. w \<noteq> [] \<and> startsWith s w) ws = Some w"
  then have w: "w \<noteq> []" "startsWith s w"
    by (auto simp: find_Some_iff)
  have "startsWith a b \<Longrightarrow> length b \<le> length a" for a b
    by (induction a b rule: startsWith.induct) auto
  with w have "0 < length w" "length w \<le> length s" by auto
  then have "length s - length w < length s" by linarith
  then show "((ws, drop (length w) s), (ws, s)) \<in> measure (\<lambda>(ws, s). length s)"
    by simp
qed

declare strip.simps [simp del]

definition trim :: "string \<Rightarrow> string" where
  "trim s = rev (strip (map rev whiteSpace_utf8) (rev (strip whiteSpace_utf8 s)))"

text \<open>\<open>indexOf\<close> returns \<open>-1\<close> when the character does not occur.\<close>

fun indexOf :: "string \<Rightarrow> char \<Rightarrow> int" where
  "indexOf [] a = -1"
| "indexOf (c # cs) a =
     (if c = a then 0 else (let i = indexOf cs a in if i = -1 then -1 else i + 1))"

definition substring :: "string \<Rightarrow> int \<Rightarrow> string" where
  "substring s i = drop (nat i) s"

definition substring2 :: "string \<Rightarrow> int \<Rightarrow> int \<Rightarrow> string" where
  "substring2 s i j = take (nat j - nat i) (drop (nat i) s)"


section \<open>Regular expressions\<close>

text \<open>
  The regular expression literals of the source are written as values of \<open>RegExp\<close>:
  a body, whether the literal starts with \<open>^\<close>, whether it ends with \<open>$\<close>, and the
  \<open>i\<close> flag. \<open>RegExp_test\<close> is the method \<open>test\<close>: it tries every start index
  unless the pattern is anchored, by Brzozowski derivatives of the body. \<open>Dot\<close> is
  the pattern \<open>.\<close>, which matches every character but a line terminator (line feed and
  carriage return; the two Unicode line separators do not occur in the ASCII strings the
  source's patterns are applied to); \<open>Cls\<close> and \<open>NCls\<close> are a character class and a
  negated class, given by their ranges.
\<close>

datatype atom = Chr char | Dot | Cls "(char \<times> char) list" | NCls "(char \<times> char) list"

definition lineTerminator :: "char \<Rightarrow> bool" where
  "lineTerminator c = ((of_char c :: nat) = 10 \<or> (of_char c :: nat) = 13)"

definition in_ranges :: "(char \<times> char) list \<Rightarrow> char \<Rightarrow> bool" where
  "in_ranges rs c =
     list_ex (\<lambda>(lo, hi). (of_char lo :: nat) \<le> of_char c \<and> (of_char c :: nat) \<le> of_char hi) rs"

fun atom_ok :: "atom \<Rightarrow> char \<Rightarrow> bool" where
  "atom_ok (Chr a) c = (c = a)"
| "atom_ok Dot c = (\<not> lineTerminator c)"
| "atom_ok (Cls rs) c = in_ranges rs c"
| "atom_ok (NCls rs) c = (\<not> in_ranges rs c)"

datatype rexp = Zero | One | Atm atom | Alt rexp rexp | Seq rexp rexp | Star rexp

fun lit :: "string \<Rightarrow> rexp" where
  "lit [] = One"
| "lit (c # cs) = Seq (Atm (Chr c)) (lit cs)"

definition Plus :: "rexp \<Rightarrow> rexp" where
  "Plus r = Seq r (Star r)"

definition Opt :: "rexp \<Rightarrow> rexp" where
  "Opt r = Alt r One"

fun Times :: "nat \<Rightarrow> rexp \<Rightarrow> rexp" where
  "Times 0 r = One"
| "Times (Suc n) r = Seq r (Times n r)"

fun Upto :: "nat \<Rightarrow> rexp \<Rightarrow> rexp" where
  "Upto 0 r = One"
| "Upto (Suc n) r = Alt One (Seq r (Upto n r))"

text \<open>The bounded quantifier \<open>r{n,m}\<close>.\<close>

definition Rep :: "nat \<Rightarrow> nat \<Rightarrow> rexp \<Rightarrow> rexp" where
  "Rep n m r = Seq (Times n r) (Upto (m - n) r)"

fun nullable :: "rexp \<Rightarrow> bool" where
  "nullable Zero = False"
| "nullable One = True"
| "nullable (Atm a) = False"
| "nullable (Alt r s) = (nullable r \<or> nullable s)"
| "nullable (Seq r s) = (nullable r \<and> nullable s)"
| "nullable (Star r) = True"

definition alt :: "rexp \<Rightarrow> rexp \<Rightarrow> rexp" where
  "alt r s = (if r = Zero then s else if s = Zero then r else Alt r s)"

definition seq :: "rexp \<Rightarrow> rexp \<Rightarrow> rexp" where
  "seq r s = (if r = Zero \<or> s = Zero then Zero else if r = One then s else Seq r s)"

fun deriv :: "char \<Rightarrow> rexp \<Rightarrow> rexp" where
  "deriv c Zero = Zero"
| "deriv c One = Zero"
| "deriv c (Atm a) = (if atom_ok a c then One else Zero)"
| "deriv c (Alt r s) = alt (deriv c r) (deriv c s)"
| "deriv c (Seq r s) =
     (if nullable r then alt (seq (deriv c r) s) (deriv c s) else seq (deriv c r) s)"
| "deriv c (Star r) = seq (deriv c r) (Star r)"

fun full_match :: "rexp \<Rightarrow> string \<Rightarrow> bool" where
  "full_match r [] = nullable r"
| "full_match r (c # cs) = full_match (deriv c r) cs"

fun prefix_match :: "rexp \<Rightarrow> string \<Rightarrow> bool" where
  "prefix_match r [] = nullable r"
| "prefix_match r (c # cs) = (nullable r \<or> prefix_match (deriv c r) cs)"

record RegExp =
  anchor_start :: bool
  body :: rexp
  anchor_end :: bool
  ignoreCase :: bool

text \<open>
  With the \<open>i\<close> flag both the pattern's characters and the input are canonicalised; the
  flagged patterns of the source consist of literal characters only.
\<close>

fun fold_case :: "rexp \<Rightarrow> rexp" where
  "fold_case (Atm (Chr c)) = Atm (Chr (lower_char c))"
| "fold_case (Alt r s) = Alt (fold_case r) (fold_case s)"
| "fold_case (Seq r s) = Seq (fold_case r) (fold_case s)"
| "fold_case (Star r) = Star (fold_case r)"
| "fold_case r = r"

definition RegExp_test :: "RegExp \<Rightarrow> string \<Rightarrow> bool" where
  "RegExp_test re s =
     (let r = (if ignoreCase re then fold_case (body re) else body re);
          t = (if ignoreCase re then toLowerCase s else s);
          m = (if anchor_end re then full_match r else prefix_match r)
      in if anchor_start re then m t else any_suffix m t)"

text \<open>A literal \<open>/^...$/\<close>, \<open>/.../\<close> and \<open>/.../i\<close>.\<close>

definition anchored :: "rexp \<Rightarrow> RegExp" where
  "anchored r = \<lparr>anchor_start = True, body = r, anchor_end = True, ignoreCase = False\<rparr>"

definition unanchored :: "rexp \<Rightarrow> RegExp" where
  "unanchored r = \<lparr>anchor_start = False, body = r, anchor_end = False, ignoreCase = False\<rparr>"

definition unanchored_i :: "rexp \<Rightarrow> RegExp" where
  "unanchored_i r = \<lparr>anchor_start = False, body = r, anchor_end = False, ignoreCase = True\<rparr>"


subsection \<open>The language of a regular expression\<close>

definition conc :: "string set \<Rightarrow> string set \<Rightarrow> string set" where
  "conc A B = {u @ v | u v. u \<in> A \<and> v \<in> B}"

inductive_set star :: "string set \<Rightarrow> string set" for A :: "string set" where
  star_Nil: "[] \<in> star A"
| star_app: "u \<in> A \<Longrightarrow> v \<in> star A \<Longrightarrow> u @ v \<in> star A"

fun lang :: "rexp \<Rightarrow> string set" where
  "lang Zero = {}"
| "lang One = {[]}"
| "lang (Atm a) = {[c] | c. atom_ok a c}"
| "lang (Alt r s) = lang r \<union> lang s"
| "lang (Seq r s) = conc (lang r) (lang s)"
| "lang (Star r) = star (lang r)"


section \<open>Navigation Classifier (src/types/index.ts, utils/columnType)\<close>

text \<open>
  \<open>new URL(url)\<close> is the platform's parser. It is a parameter \<open>newURL\<close> of every
  function that calls it: \<open>None\<close> is the \<open>TypeError\<close> thrown on a malformed URL,
  \<open>Some\<close> carries the two parts of the parsed URL the program reads, the path and
  the value of the query parameter \<open>q\<close>.
\<close>

record URL =
  pathname :: string
  searchParams_q :: "string option"

definition handle_class :: atom where
  "handle_class =
     Cls [(CHR ''a'', CHR ''z''), (CHR ''A'', CHR ''Z''), (CHR ''0'', CHR ''9''), (CHR ''_'', CHR ''_'')]"

definition allowedPatterns :: "RegExp list" where
  "allowedPatterns =
     [anchored (lit ''/home''),
      anchored (lit ''/notifications''),
      anchored (Seq (lit ''/messages'') (Opt (Seq (Atm (Chr CHR ''/'')) (Star (Atm Dot))))),
      anchored (lit ''/search''),
      anchored (Seq (lit ''/i/lists/'') (Plus (Atm Dot))),
      anchored (Seq (lit ''/explore'') (Opt (Seq (Atm (Chr CHR ''/'')) (Star (Atm Dot))))),
      anchored (lit ''/i/bookmarks''),
      anchored (Seq (lit ''/i/communities/'') (Plus (Atm Dot))),
      anchored (Seq (Atm (Chr CHR ''/'')) (Rep 1 15 (Atm handle_class)))]"

definition shouldRecordUrl :: "(string \<Rightarrow> URL option) \<Rightarrow> string \<Rightarrow> bool" where
  "shouldRecordUrl newURL url =
     (case newURL url of
        None \<Rightarrow> False
      | Some urlObj \<Rightarrow> list_ex (\<lambda>pattern. RegExp_test pattern (pathname urlObj)) allowedPatterns)"

text \<open>The magnifier emoji U+1F50D, in UTF-8.\<close>

definition magnifier :: string where
  "magnifier = [CHR 0xF0, CHR 0x9F, CHR 0x94, CHR 0x8D]"

definition getTitleFromUrl :: "(string \<Rightarrow> URL option) \<Rightarrow> string \<Rightarrow> string" where
  "getTitleFromUrl newURL url =
     (case newURL url of
        None \<Rightarrow> ''X''
      | Some urlObj \<Rightarrow>
          let p = pathname urlObj in
          if p = ''/home'' then ''Home''
          else if p = ''/notifications'' then ''Notifications''
          else if p = ''/messages'' \<or> startsWith p ''/messages/'' then ''DM''
          else if p = ''/search'' then
            (case searchParams_q urlObj of
               None \<Rightarrow> magnifier @ ''Search''
             | Some keyword \<Rightarrow> if keyword = [] then magnifier @ ''Search'' else magnifier @ keyword)
          else if str_includes p ''/i/lists/'' then ''List''
          else if p = ''/explore'' \<or> startsWith p ''/explore/'' then ''Explore''
          else if RegExp_test
                    (anchored (Seq (Atm (Chr CHR ''/'')) (Plus (Atm (NCls [(CHR ''/'', CHR ''/'')]))))) p
               then CHR ''@'' # substring p 1
          else ''X'')"

datatype ColumnType =
    CT_home | CT_notifications | CT_messages | CT_search | CT_list | CT_explore
  | CT_bookmarks | CT_community | CT_user_profile | CT_unknown

definition getColumnTypeFromUrl :: "(string \<Rightarrow> URL option) \<Rightarrow> string \<Rightarrow> ColumnType" where
  "getColumnTypeFromUrl newURL url =
     (case newURL url of
        None \<Rightarrow> CT_unknown
      | Some urlObj \<Rightarrow>
          let p = pathname urlObj in
          if p = ''/home'' then CT_home
          else if p = ''/notifications'' then CT_notifications
          else if p = ''/messages'' \<or> startsWith p ''/messages/'' then CT_messages
          else if p = ''/search'' then CT_search
          else if RegExp_test (anchored (Seq (lit ''/i/lists/'') (Plus (Atm Dot)))) p then CT_list
          else if p = ''/explore'' \<or> startsWith p ''/explore/'' then CT_explore
          else if p = ''/i/bookmarks'' then CT_bookmarks
          else if RegExp_test (anchored (Seq (lit ''/i/communities/'') (Plus (Atm Dot)))) p
               then CT_community
          else if RegExp_test (anchored (Seq (Atm (Chr CHR ''/'')) (Rep 1 15 (Atm handle_class)))) p
               then CT_user_profile
          else CT_unknown)"

text \<open>
  The path shapes the whitelist accepts: four exact paths, \<open>/messages\<close> and
  \<open>/explore\<close> with optional sub-paths, \<open>/i/lists/\<close> and \<open>/i/communities/\<close> followed
  by any non-empty remainder (an identifier, with or without further sub-paths), and a
  single segment of 1 to 15 letters, digits and underscores.
\<close>

definition handle_char :: "char \<Rightarrow> bool" where
  "handle_char c =
     (let n = (of_char c :: nat)
      in (97 \<le> n \<and> n \<le> 122) \<or> (65 \<le> n \<and> n \<le> 90) \<or> (48 \<le> n \<and> n \<le> 57) \<or> n = 95)"

definition whitelisted_path :: "string \<Rightarrow> bool" where
  "whitelisted_path p =
     (p = ''/home'' \<or> p = ''/notifications'' \<or> p = ''/search'' \<or> p = ''/i/bookmarks''
      \<or> p = ''/messages'' \<or> startsWith p ''/messages/''
      \<or> p = ''/explore'' \<or> startsWith p ''/explore/''
      \<or> (startsWith p ''/i/lists/'' \<and> 0 < length (drop 9 p))
      \<or> (startsWith p ''/i/communities/'' \<and> 0 < length (drop 15 p))
      \<or> (startsWith p ''/'' \<and> 1 \<le> length (drop 1 p) \<and> length (drop 1 p) \<le> 15
          \<and> list_all handle_char (drop 1 p)))"

text \<open>
  The path shapes as the specification lists them, where sub-paths are granted to
  \<open>/messages\<close> and \<open>/explore\<close> only: \<open>/i/lists/<id>\<close> and \<open>/i/communities/<id>\<close>
  are templates of one more segment, a non-empty identifier.
\<close>

definition listed_path :: "string \<Rightarrow> bool" where
  "listed_path p =
     (p = ''/home'' \<or> p = ''/notifications'' \<or> p = ''/search'' \<or> p = ''/i/bookmarks''
      \<or> p = ''/messages'' \<or> startsWith p ''/messages/''
      \<or> p = ''/explore'' \<or> startsWith p ''/explore/''
      \<or> (startsWith p ''/i/lists/'' \<and> 0 < length (drop 9 p) \<and> CHR ''/'' \<notin> set (drop 9 p))
      \<or> (startsWith p ''/i/communities/'' \<and> 0 < length (drop 15 p)
          \<and> CHR ''/'' \<notin> set (drop 15 p))
      \<or> (startsWith p ''/'' \<and> 1 \<le> length (drop 1 p) \<and> length (drop 1 p) \<le> 15
          \<and> list_all handle_char (drop 1 p)))"

text \<open>
  A stand-in for the platform's parser, used where a theorem is evaluated at a concrete
  URL: it reads plain absolute \<open>http\<close> and \<open>https\<close> URLs
  \<open>scheme://host/path?query#fragment\<close>, after removing tabs and newlines as the
  URL standard does, and does no percent-encoding or dot-segment normalisation.
\<close>

fun split_on :: "char \<Rightarrow> string \<Rightarrow> string list" where
  "split_on d [] = [[]]"
| "split_on d (c # cs) =
     (if c = d then [] # split_on d cs
      else (case split_on d cs of [] \<Rightarrow> [[c]] | x # xs \<Rightarrow> (c # x) # xs))"

definition query_get :: "string \<Rightarrow> string \<Rightarrow> string option" where
  "query_get k q =
     (case find (\<lambda>kv. takeWhile (\<lambda>c. c \<noteq> CHR ''='') kv = k) (split_on CHR ''&'' q) of
        None \<Rightarrow> None
      | Some kv \<Rightarrow> Some (drop 1 (dropWhile (\<lambda>c. c \<noteq> CHR ''='') kv)))"

definition simple_URL :: "string \<Rightarrow> URL option" where
  "simple_URL s =
     (let t = filter (\<lambda>c. (of_char c :: nat) \<notin> {9, 10, 13}) s;
          rest = (if startsWith t ''https://'' then Some (drop 8 t)
                  else if startsWith t ''http://'' then Some (drop 7 t) else None)
      in case rest of
           None \<Rightarrow> None
         | Some r \<Rightarrow>
             let host = takeWhile (\<lambda>c. c \<notin> set ''/?#'') r;
                 tail = dropWhile (\<lambda>c. c \<notin> set ''/?#'') r;
                 path = takeWhile (\<lambda>c. c \<notin> set ''?#'') tail;
                 after = dropWhile (\<lambda>c. c \<notin> set ''?#'') tail;
                 query = (case after of
                            [] \<Rightarrow> []
                          | c # q \<Rightarrow> if c = CHR ''?'' then takeWhile (\<lambda>c. c \<noteq> CHR ''#'') q else [])
             in if host = [] then None
                else Some \<lparr>pathname = (if path = [] then ''/'' else path),
                           searchParams_q = query_get ''q'' query\<rparr>)"


section \<open>Rate-Limit State Tracker (src/background/index.ts)\<close>

datatype RateLimitCategory =
    tweetPost | userTimeline | homeLatestTimeline | listTweets
  | searchLatest | dmFetch | accountSettings | badgeCount

record RateLimitPattern =
  category :: RateLimitCategory
  patterns :: "RegExp list"

definition RATE_LIMIT_PATTERNS :: "RateLimitPattern list" where
  "RATE_LIMIT_PATTERNS =
     [\<lparr>category = tweetPost,
       patterns = [unanchored_i (lit ''CreateTweet''), unanchored_i (lit ''TweetCreate'')]\<rparr>,
      \<lparr>category = userTimeline,
       patterns = [unanchored_i (lit ''UserTweets''), unanchored_i (lit ''UserTweetsAndReplies'')]\<rparr>,
      \<lparr>category = homeLatestTimeline,
       patterns = [unanchored_i (lit ''HomeLatestTimeline'')]\<rparr>,
      \<lparr>category = listTweets,
       patterns = [unanchored_i (lit ''ListLatestTweetsTimeline''), unanchored_i (lit ''ListTweets'')]\<rparr>,
      \<lparr>category = searchLatest,
       patterns = [unanchored_i (lit ''SearchTimeline'')]\<rparr>,
      \<lparr>category = dmFetch,
       patterns = [unanchored_i (lit ''DmInbox''), unanchored_i (lit ''DmConversation''),
                   unanchored_i (lit ''DmHistory'')]\<rparr>,
      \<lparr>category = accountSettings,
       patterns = [unanchored_i (lit ''/account/settings.json'')]\<rparr>,
      \<lparr>category = badgeCount,
       patterns = [unanchored_i (lit ''badge_count/badge_count.json'')]\<rparr>]"

definition detectRateLimitCategory :: "string \<Rightarrow> RateLimitCategory option" where
  "detectRateLimitCategory url =
     (case find (\<lambda>rule. list_ex (\<lambda>pattern. RegExp_test pattern url) (patterns rule))
             RATE_LIMIT_PATTERNS of
        None \<Rightarrow> None
      | Some entry \<Rightarrow> Some (category entry))"

text \<open>
  The numbers of the quota record are of any type \<open>'n\<close>; \<open>===\<close> on them is equality.
  \<open>Number\<close>, the platform's conversion of a header value, is a parameter: \<open>None\<close> is
  \<open>NaN\<close>.
\<close>

record 'n RateLimitInfo =
  limit :: "'n option"
  remaining :: "'n option"
  resetAt :: "'n option"
  lastUpdated :: "'n option"

type_synonym 'n RateLimitState = "RateLimitCategory \<Rightarrow> 'n RateLimitInfo"

definition DEFAULT_RATE_LIMIT_STATE :: "'n RateLimitState" where
  "DEFAULT_RATE_LIMIT_STATE =
     (\<lambda>c. \<lparr>limit = None, remaining = None, resetAt = None, lastUpdated = None\<rparr>)"

record HttpHeader =
  header_name :: "string option"
  header_value :: "string option"

definition getHeaderValue ::
  "(string \<Rightarrow> 'n option) \<Rightarrow> HttpHeader list option \<Rightarrow> string \<Rightarrow> 'n option" where
  "getHeaderValue Number headers name =
     (case headers of
        None \<Rightarrow> None
      | Some hs \<Rightarrow>
          (case find (\<lambda>header. map_option toLowerCase (header_name header) = Some name) hs of
             None \<Rightarrow> None
           | Some found \<Rightarrow>
               (case header_value found of
                  None \<Rightarrow> None
                | Some v \<Rightarrow> if v = [] then None else Number v)))"

record details =
  details_url :: string
  responseHeaders :: "HttpHeader list option"

text \<open>
  The tracker's state: the module-level map, and the sequence of maps written to
  \<open>chrome.storage.local\<close> under the rate-limit key, oldest first.
\<close>

record 'n tracker =
  rateLimitState :: "'n RateLimitState"
  storage_writes :: "'n RateLimitState list"

text \<open>The listener of \<open>onHeadersReceived\<close>; \<open>now\<close> is the value of \<open>Date.now()\<close>.\<close>

definition onHeadersReceived ::
  "(string \<Rightarrow> 'n option) \<Rightarrow> 'n \<Rightarrow> details \<Rightarrow> 'n tracker \<Rightarrow> 'n tracker" where
  "onHeadersReceived Number now d st =
     (case detectRateLimitCategory (details_url d) of
        None \<Rightarrow> st
      | Some c \<Rightarrow>
          let h_limit = getHeaderValue Number (responseHeaders d) ''x-rate-limit-limit'';
              h_remaining = getHeaderValue Number (responseHeaders d) ''x-rate-limit-remaining'';
              h_resetAt = getHeaderValue Number (responseHeaders d) ''x-rate-limit-reset''
          in if h_limit = None \<and> h_remaining = None \<and> h_resetAt = None then st
             else
               let previous = rateLimitState st c;
                   newLimit = (case h_limit of None \<Rightarrow> limit previous | Some v \<Rightarrow> Some v);
                   newRemaining =
                     (case h_remaining of None \<Rightarrow> remaining previous | Some v \<Rightarrow> Some v);
                   newResetAt = (case h_resetAt of None \<Rightarrow> resetAt previous | Some v \<Rightarrow> Some v)
               in if limit previous = newLimit \<and> remaining previous = newRemaining
                     \<and> resetAt previous = newResetAt
                  then st
                  else
                    let state' = (rateLimitState st)
                          (c := \<lparr>limit = newLimit, remaining = newRemaining,
                                 resetAt = newResetAt, lastUpdated = Some now\<rparr>)
                    in \<lparr>rateLimitState = state', storage_writes = storage_writes st @ [state']\<rparr>)"

text \<open>
  A stand-in for \<open>Number\<close> on strings of decimal digits, used where a theorem is
  evaluated at concrete headers.
\<close>

definition Number_dec :: "string \<Rightarrow> int option" where
  "Number_dec s =
     (if s \<noteq> [] \<and> list_all (\<lambda>c. 48 \<le> (of_char c :: nat) \<and> (of_char c :: nat) \<le> 57) s
      then Some (foldl (\<lambda>a c. 10 * a + int (of_char c - 48)) 0 s)
      else None)"


section \<open>Content Filter Engine (content script: applyFilters, matchesFilter)\<close>

record FilterRule =
  rule_id :: string
  rule_name :: string
  enabled :: bool
  screenName :: "string option"
  textPattern :: "string option"
  isRetweet :: "bool option"
  hasMedia :: "bool option"

text \<open>
  A post is an \<open>article\<close> element of the embedded document, reduced to what the engine
  reads and writes: the attribute \<open>data-twitama-modoki-filtered\<close>, \<open>style.display\<close>,
  whether an element with test id \<open>socialContext\<close> exists, the \<open>href\<close> of the first
  link \<open>a[href^="/"]\<close> in the post and of the first such link inside the
  \<open>User-Name\<close> block, the text content of the \<open>tweetText\<close> element, and whether the
  three media markers exist. \<open>None\<close> is a selector that matches nothing.
\<close>

record post =
  filtered_attr :: "string option"
  style_display :: string
  socialContext :: bool
  firstLink :: "string option"
  userNameLink :: "string option"
  tweetText :: "string option"
  tweetPhoto :: bool
  videoPlayer :: bool
  card_wrapper :: bool

text \<open>\<open>href.replace(/^\//, "").split("/")[0]\<close>\<close>

definition screenName_of_href :: "string \<Rightarrow> string" where
  "screenName_of_href href =
     takeWhile (\<lambda>c. c \<noteq> CHR ''/'')
       (case href of [] \<Rightarrow> [] | c # cs \<Rightarrow> if c = CHR ''/'' then cs else c # cs)"

text \<open>
  \<open>new RegExp(pattern)\<close> is the parameter \<open>newRegExp\<close>: \<open>None\<close> is the
  \<open>SyntaxError\<close> it throws, \<open>Some t\<close> carries the \<open>test\<close> method of the regular
  expression. Each condition of the chain below is one early \<open>return false\<close> of the
  source.
\<close>

definition matchesFilter ::
  "(string \<Rightarrow> (string \<Rightarrow> bool) option) \<Rightarrow> post \<Rightarrow> FilterRule \<Rightarrow> bool" where
  "matchesFilter newRegExp p f =
     (if (case screenName f of
            None \<Rightarrow> False
          | Some sn \<Rightarrow>
              sn \<noteq> [] \<and>
              (case (if socialContext p then firstLink p else userNameLink p) of
                 None \<Rightarrow> True
               | Some href \<Rightarrow> toLowerCase (screenName_of_href href) \<noteq> toLowerCase sn))
      then False
      else if (case textPattern f of
                 None \<Rightarrow> False
               | Some pat \<Rightarrow>
                   pat \<noteq> [] \<and>
                   (case newRegExp pat of
                      None \<Rightarrow> True
                    | Some regex_test \<Rightarrow>
                        (case tweetText p of None \<Rightarrow> True | Some text \<Rightarrow> \<not> regex_test text)))
      then False
      else if (case isRetweet f of None \<Rightarrow> False | Some b \<Rightarrow> b \<noteq> socialContext p)
      then False
      else if (case hasMedia f of
                 None \<Rightarrow> False
               | Some b \<Rightarrow> b \<noteq> (tweetPhoto p \<or> videoPlayer p \<or> card_wrapper p))
      then False
      else True)"

text \<open>The body of the \<open>forEach\<close> over the posts, and \<open>filterPosts\<close>.\<close>

definition filterPost ::
  "(string \<Rightarrow> (string \<Rightarrow> bool) option) \<Rightarrow> FilterRule list \<Rightarrow> post \<Rightarrow> post" where
  "filterPost newRegExp activeFilters p =
     (if filtered_attr p = Some ''1'' then p
      else
        let matchedFilter = find (matchesFilter newRegExp p) activeFilters;
            shouldHide = list_ex (matchesFilter newRegExp p) activeFilters;
            p' = (if shouldHide \<and> matchedFilter \<noteq> None then p\<lparr>style_display := ''none''\<rparr> else p)
        in p'\<lparr>filtered_attr := Some ''1''\<rparr>)"

definition filterPosts ::
  "(string \<Rightarrow> (string \<Rightarrow> bool) option) \<Rightarrow> FilterRule list \<Rightarrow> post list \<Rightarrow> post list" where
  "filterPosts newRegExp activeFilters doc = map (filterPost newRegExp activeFilters) doc"

text \<open>
  The document is the list of its \<open>article[data-testid="tweet"]\<close> elements, in
  document order. \<open>applyFilters\<close> runs \<open>filterPosts\<close> once; the mutation observer it
  installs runs \<open>filterPosts\<close> again, with the same active filters, on the document as
  it then is.
\<close>

definition applyFilters ::
  "(string \<Rightarrow> (string \<Rightarrow> bool) option) \<Rightarrow> post list \<Rightarrow> FilterRule list \<Rightarrow> post list" where
  "applyFilters newRegExp doc filters =
     (let activeFilters = filter enabled filters
      in if length activeFilters = 0 then doc else filterPosts newRegExp activeFilters doc)"









text \<open>
  A stand-in for \<open>new RegExp\<close>, used where a theorem is evaluated at a concrete pattern.
  It reads the patterns built from literal characters, \<open>.\<close>, groups, \<open>|\<close> and the
  quantifiers \<open>*\<close>, \<open>+\<close>, \<open>?\<close>; \<open>SyntaxError\<close> is what the platform throws on an
  unbalanced parenthesis, a quantifier with nothing to repeat, or a trailing backslash;
  any other syntax is \<open>Unsupported\<close>, outside the stand-in.
\<close>

datatype parse_result = SyntaxError | Unsupported | Parsed rexp

record frame =
  f_alts :: "rexp list"
  f_terms :: "rexp list"
  f_quantifiable :: bool

definition empty_frame :: frame where
  "empty_frame = \<lparr>f_alts = [], f_terms = [], f_quantifiable = False\<rparr>"

fun seq_of :: "rexp list \<Rightarrow> rexp" where
  "seq_of [] = One"
| "seq_of (r # rs) = Seq r (seq_of rs)"

fun alt_of :: "rexp list \<Rightarrow> rexp" where
  "alt_of [] = Zero"
| "alt_of [r] = r"
| "alt_of (r # rs) = Alt r (alt_of rs)"

definition close_frame :: "frame \<Rightarrow> rexp" where
  "close_frame f = alt_of (f_alts f @ [seq_of (rev (f_terms f))])"

definition push_term :: "rexp \<Rightarrow> frame \<Rightarrow> frame" where
  "push_term r f = f\<lparr>f_terms := r # f_terms f, f_quantifiable := True\<rparr>"

definition quantify :: "char \<Rightarrow> rexp \<Rightarrow> rexp" where
  "quantify q r = (if q = CHR ''*'' then Star r else if q = CHR ''+'' then Plus r else Opt r)"

fun parse_re :: "string \<Rightarrow> frame list \<Rightarrow> parse_result" where
  "parse_re [] [f] = Parsed (close_frame f)"
| "parse_re [] fs = SyntaxError"
| "parse_re (c # cs) [] = SyntaxError"
| "parse_re (c # cs) (f # fs) =
     (if c = CHR ''('' then
        (case cs of
           [] \<Rightarrow> SyntaxError
         | c' # cs' \<Rightarrow> if c' = CHR ''?'' then Unsupported else parse_re cs (empty_frame # f # fs))
      else if c = CHR '')'' then
        (case fs of
           [] \<Rightarrow> SyntaxError
         | g # gs \<Rightarrow> parse_re cs (push_term (close_frame f) g # gs))
      else if c = CHR ''|'' then
        parse_re cs (\<lparr>f_alts = f_alts f @ [seq_of (rev (f_terms f))], f_terms = [],
                      f_quantifiable = False\<rparr> # fs)
      else if c \<in> set ''*+?'' then
        (case f_terms f of
           [] \<Rightarrow> SyntaxError
         | t # ts \<Rightarrow>
             if f_quantifiable f
             then parse_re cs (f\<lparr>f_terms := quantify c t # ts, f_quantifiable := False\<rparr> # fs)
             else Unsupported)
      else if c = CHR 0x5C then
        (case cs of
           [] \<Rightarrow> SyntaxError
         | e # cs' \<Rightarrow>
             if e \<in> set ''^$.*+?()[]{}|/'' \<or> e = CHR 0x5C
             then parse_re cs' (push_term (Atm (Chr e)) f # fs)
             else Unsupported)
      else if c = CHR ''.'' then parse_re cs (push_term (Atm Dot) f # fs)
      else if c \<in> set ''^$[]{}'' then Unsupported
      else parse_re cs (push_term (Atm (Chr c)) f # fs))"

definition RegExp_sub :: "string \<Rightarrow> (string \<Rightarrow> bool) option" where
  "RegExp_sub pat =
     (case parse_re pat [empty_frame] of
        Parsed r \<Rightarrow> Some (RegExp_test (unanchored r))
      | SyntaxError \<Rightarrow> None
      | Unsupported \<Rightarrow> None)"


section \<open>Title Resolver and Navigation Watcher (src/hooks/useIframeUrlSync.ts)\<close>

text \<open>
  Access to the embedded window can fail: \<open>Denied\<close> is the exception thrown by a
  cross-context access, \<open>Got\<close> carries what the access returned.
\<close>

datatype 'a access = Denied | Got 'a

text \<open>
  The embedded document, reduced to what the name helpers of \<open>xSelectors.ts\<close> read:
  the text content of the first element with test id \<open>TopNavBar\<close> and of the first
  \<open>div\<close> with test id \<open>UserName\<close>; \<open>None\<close> when no element matches.
\<close>

record document =
  topNavBar :: "string option access"
  userNameBlock :: "string option access"

definition getListName :: "document \<Rightarrow> string option" where
  "getListName doc =
     (case topNavBar doc of
        Denied \<Rightarrow> None
      | Got None \<Rightarrow> None
      | Got (Some textContent) \<Rightarrow>
          if textContent = [] then None
          else
            let text = trim textContent; atIndex = indexOf text CHR ''@''
            in Some (if atIndex \<noteq> -1 then trim (substring2 text 0 atIndex) else text))"

definition getCommunityName :: "document \<Rightarrow> string option" where
  "getCommunityName doc =
     (case topNavBar doc of
        Denied \<Rightarrow> None
      | Got None \<Rightarrow> None
      | Got (Some textContent) \<Rightarrow>
          if textContent = [] then None
          else
            let text = trim textContent; atIndex = indexOf text CHR ''@''
            in Some (if atIndex \<noteq> -1 then trim (substring2 text 0 atIndex) else text))"

definition getUserName :: "document \<Rightarrow> string option" where
  "getUserName doc =
     (case userNameBlock doc of
        Denied \<Rightarrow> None
      | Got None \<Rightarrow> None
      | Got (Some textContent) \<Rightarrow>
          if textContent = [] then None
          else
            let text = trim textContent; atIndex = indexOf text CHR ''@''
            in if atIndex = -1 then None else Some (trim (substring text atIndex)))"

datatype ColumnConfigType = Column_type | Settings_type

record Column =
  col_id :: string
  col_title :: string
  col_currentUrl :: string
  col_config_type :: ColumnConfigType

datatype name_kind = ListName | CommunityName | UserName

definition getName :: "name_kind \<Rightarrow> document \<Rightarrow> string option" where
  "getName kind doc =
     (case kind of
        ListName \<Rightarrow> getListName doc
      | CommunityName \<Rightarrow> getCommunityName doc
      | UserName \<Rightarrow> getUserName doc)"

text \<open>
  The three title constants the persisted-title check compares with, in UTF-8: the
  Japanese words for list, community and user profile.
\<close>

definition placeholder :: "name_kind \<Rightarrow> string" where
  "placeholder kind =
     (case kind of
        ListName \<Rightarrow>
          [CHR 0xE3, CHR 0x83, CHR 0xAA, CHR 0xE3, CHR 0x82, CHR 0xB9, CHR 0xE3, CHR 0x83, CHR 0x88]
      | CommunityName \<Rightarrow>
          [CHR 0xE3, CHR 0x82, CHR 0xB3, CHR 0xE3, CHR 0x83, CHR 0x9F, CHR 0xE3, CHR 0x83, CHR 0xA5,
           CHR 0xE3, CHR 0x83, CHR 0x8B, CHR 0xE3, CHR 0x83, CHR 0x86, CHR 0xE3, CHR 0x82, CHR 0xA3]
      | UserName \<Rightarrow>
          [CHR 0xE3, CHR 0x83, CHR 0xA6, CHR 0xE3, CHR 0x83, CHR 0xBC, CHR 0xE3, CHR 0x82, CHR 0xB6,
           CHR 0xE3, CHR 0x83, CHR 0xBC, CHR 0xE3, CHR 0x83, CHR 0x97, CHR 0xE3, CHR 0x83, CHR 0xAD,
           CHR 0xE3, CHR 0x83, CHR 0x95, CHR 0xE3, CHR 0x82, CHR 0xA3, CHR 0xE3, CHR 0x83, CHR 0xBC,
           CHR 0xE3, CHR 0x83, CHR 0xAB])"

text \<open>
  A pending \<open>setTimeout\<close> of a retry chain: the closure's captured URL and default
  title, the arguments \<open>attempt\<close> and \<open>maxAttempts\<close> of the call it will make, and the
  delay in milliseconds it was scheduled with.
\<close>

record retry =
  retry_kind :: name_kind
  retry_url :: string
  retry_title :: string
  retry_attempt :: nat
  retry_maxAttempts :: nat
  retry_delay :: nat

text \<open>
  The state of one view's watcher: the two guard refs, the in-memory name cache, the
  calls of \<open>onUrlChange\<close> made so far (oldest first), the pending timers, and the
  number of DOM extractions (calls of a name helper) made so far.
\<close>

record watcher =
  lastUrl :: string
  lastRecordedUrl :: string
  resolvedNames :: "string \<rightharpoonup> string"
  calls :: "(string \<times> string) list"
  timers :: "retry list"
  extractions :: nat

definition watcher0 :: watcher where
  "watcher0 = \<lparr>lastUrl = [], lastRecordedUrl = [], resolvedNames = Map.empty, calls = [],
               timers = [], extractions = 0\<rparr>"

text \<open>
  What a trigger finds: \<open>iframe.contentWindow?.location.href\<close> and
  \<open>iframe.contentWindow?.document\<close>.
\<close>

record view =
  location_href :: "string option access"
  view_document :: "document option access"

text \<open>
  One of the three name-resolution blocks of \<open>checkUrl\<close>, which differ in the kind
  only. \<open>Some\<close> is the state with which \<open>checkUrl\<close> ends (by \<open>return\<close>, or by the
  exception of the document access, caught at the end); \<open>None\<close> means the block falls
  through to the code after it.
\<close>

text \<open>The memory-cache lookup \<open>resolvedNamesRef.current.get(currentUrl)\<close>, as the
  truthiness test reads it: an empty string counts as no entry.\<close>

definition cachedName :: "watcher \<Rightarrow> string \<Rightarrow> string option" where
  "cachedName st currentUrl =
     (case resolvedNames st currentUrl of
        None \<Rightarrow> None
      | Some n \<Rightarrow> if n = [] then None else Some n)"

text \<open>The persisted-title check: the title of the column with this view's identity, when
  the check of the source accepts it.\<close>

definition storedTitle :: "name_kind \<Rightarrow> string option \<Rightarrow> Column list \<Rightarrow> string \<Rightarrow> string option" where
  "storedTitle kind columnId columns currentUrl =
     (case columnId of
        None \<Rightarrow> None
      | Some cid \<Rightarrow>
          if cid = [] then None
          else
            (case find (\<lambda>c. col_id c = cid) columns of
               None \<Rightarrow> None
             | Some currentColumn \<Rightarrow>
                 if col_title currentColumn \<noteq> placeholder kind
                    \<and> col_currentUrl currentColumn = currentUrl
                 then Some (col_title currentColumn) else None))"

definition name_block ::
  "name_kind \<Rightarrow> string option \<Rightarrow> Column list \<Rightarrow> view \<Rightarrow> string \<Rightarrow> string \<Rightarrow> watcher
   \<Rightarrow> watcher option" where
  "name_block kind columnId columns v currentUrl title st =
     (case cachedName st currentUrl of
        Some name \<Rightarrow> Some (st\<lparr>calls := calls st @ [(currentUrl, name)]\<rparr>)
      | None \<Rightarrow>
          (case storedTitle kind columnId columns currentUrl of
             Some stored \<Rightarrow>
               Some (st\<lparr>resolvedNames := (resolvedNames st)(currentUrl \<mapsto> stored),
                        calls := calls st @ [(currentUrl, stored)]\<rparr>)
           | None \<Rightarrow>
               (case view_document v of
                  Denied \<Rightarrow> Some st
                | Got None \<Rightarrow> None
                | Got (Some iframeDoc) \<Rightarrow>
                    Some (st\<lparr>timers := timers st @
                                [\<lparr>retry_kind = kind, retry_url = currentUrl, retry_title = title,
                                  retry_attempt = 1, retry_maxAttempts = 5,
                                  retry_delay = 500\<rparr>]\<rparr>))))"

definition profile_url_pattern :: RegExp where
  "profile_url_pattern = anchored (Seq (lit ''https://x.com/'') (Rep 1 15 (Atm handle_class)))"

definition checkUrl ::
  "(string \<Rightarrow> URL option) \<Rightarrow> string option \<Rightarrow> Column list \<Rightarrow> view \<Rightarrow> watcher \<Rightarrow> watcher" where
  "checkUrl newURL columnId columns v st =
     (case location_href v of
        Denied \<Rightarrow> st
      | Got None \<Rightarrow> st
      | Got (Some currentUrl) \<Rightarrow>
          if currentUrl = [] \<or> currentUrl = lastUrl st then st
          else
            let st1 = st\<lparr>lastUrl := currentUrl\<rparr> in
            if shouldRecordUrl newURL currentUrl then
              if currentUrl \<noteq> lastRecordedUrl st1 then
                let st2 = st1\<lparr>lastRecordedUrl := currentUrl\<rparr>;
                    title = getTitleFromUrl newURL currentUrl
                in
                  (case (if str_includes currentUrl ''/i/lists/''
                         then name_block ListName columnId columns v currentUrl title st2
                         else None) of
                     Some done_st \<Rightarrow> done_st
                   | None \<Rightarrow>
                  (case (if str_includes currentUrl ''/i/communities/''
                         then name_block CommunityName columnId columns v currentUrl title st2
                         else None) of
                     Some done_st \<Rightarrow> done_st
                   | None \<Rightarrow>
                  (case (if RegExp_test profile_url_pattern currentUrl
                         then name_block UserName columnId columns v currentUrl title st2
                         else None) of
                     Some done_st \<Rightarrow> done_st
                   | None \<Rightarrow> st2\<lparr>calls := calls st2 @ [(currentUrl, title)]\<rparr>)))
              else st1
            else st1)"

text \<open>
  The body of \<open>tryGetListName\<close>, \<open>tryGetCommunityName\<close> and \<open>tryGetUserName\<close>, run
  when the timer \<open>r\<close> fires and the document then reads \<open>doc\<close>.
\<close>

definition tryGetName :: "retry \<Rightarrow> document \<Rightarrow> watcher \<Rightarrow> watcher" where
  "tryGetName r doc st =
     (let st' = st\<lparr>extractions := extractions st + 1\<rparr> in
      case (case getName (retry_kind r) doc of
              None \<Rightarrow> None
            | Some n \<Rightarrow> if n = [] then None else Some n) of
        Some name \<Rightarrow>
          st'\<lparr>resolvedNames := (resolvedNames st')(retry_url r \<mapsto> name),
              calls := calls st' @ [(retry_url r, name)]\<rparr>
      | None \<Rightarrow>
          if retry_attempt r < retry_maxAttempts r then
            st'\<lparr>timers := timers st' @
                   [r\<lparr>retry_attempt := retry_attempt r + 1,
                      retry_delay := retry_attempt r * 300\<rparr>]\<rparr>
          else st'\<lparr>calls := calls st' @ [(retry_url r, retry_title r)]\<rparr>)"

text \<open>The \<open>i\<close>-th pending timer fires: it leaves the pending list and its callback runs.\<close>

definition fire :: "nat \<Rightarrow> document \<Rightarrow> watcher \<Rightarrow> watcher" where
  "fire i doc st =
     (if i < length (timers st)
      then tryGetName (timers st ! i) doc
             (st\<lparr>timers := take i (timers st) @ drop (Suc i) (timers st)\<rparr>)
      else st)"

text \<open>
  The events of a view: a trigger (load, popstate, hashchange or poll tick) runs
  \<open>checkUrl\<close> with the column list of the current render; a timer fires.
\<close>

datatype event = Check "Column list" view | Fire nat document

fun step :: "(string \<Rightarrow> URL option) \<Rightarrow> string option \<Rightarrow> event \<Rightarrow> watcher \<Rightarrow> watcher" where
  "step newURL columnId (Check columns v) st = checkUrl newURL columnId columns v st"
| "step newURL columnId (Fire i doc) st = fire i doc st"

fun run :: "(string \<Rightarrow> URL option) \<Rightarrow> string option \<Rightarrow> event list \<Rightarrow> watcher \<Rightarrow> watcher" where
  "run newURL columnId [] st = st"
| "run newURL columnId (ev # evs) st = run newURL columnId evs (step newURL columnId ev st)"

definition observes :: "string \<Rightarrow> event \<Rightarrow> bool" where
  "observes u ev =
     (case ev of Check columns v \<Rightarrow> location_href v = Got (Some u) | Fire i doc \<Rightarrow> True)"

text \<open>Every call made and every pending retry is for a URL on the whitelist.\<close>

definition whitelisted_state :: "(string \<Rightarrow> URL option) \<Rightarrow> watcher \<Rightarrow> bool" where
  "whitelisted_state newURL st \<longleftrightarrow>
     list_all (\<lambda>c. shouldRecordUrl newURL (fst c)) (calls st)
     \<and> list_all (\<lambda>r. shouldRecordUrl newURL (retry_url r)) (timers st)"

text \<open>The calls made so far together with the retry chains still pending, each of which
  ends in exactly one call.\<close>

definition pending :: "watcher \<Rightarrow> nat" where
  "pending st = length (calls st) + length (timers st)"

text \<open>A DOM extraction of this kind finds no usable name in the document.\<close>

definition misses :: "name_kind \<Rightarrow> document \<Rightarrow> bool" where
  "misses kind doc = (case getName kind doc of None \<Rightarrow> True | Some n \<Rightarrow> n = [])"


section \<open>Properties of the regular expression engine\<close>

lemma nullable_iff: "nullable r \<longleftrightarrow> [] \<in> lang r"
  by (induction r) (auto simp: conc_def intro: star.intros)

lemma lang_alt: "lang (alt r s) = lang r \<union> lang s"
  by (simp add: alt_def)

lemma lang_seq: "lang (seq r s) = conc (lang r) (lang s)"
  by (auto simp: seq_def conc_def)

lemma Cons_in_conc:
  "c # w \<in> conc A B \<longleftrightarrow>
     (\<exists>u v. w = u @ v \<and> c # u \<in> A \<and> v \<in> B) \<or> ([] \<in> A \<and> c # w \<in> B)"
proof
  assume "c # w \<in> conc A B"
  then obtain u v where uv: "c # w = u @ v" "u \<in> A" "v \<in> B"
    by (auto simp: conc_def)
  show "(\<exists>u v. w = u @ v \<and> c # u \<in> A \<and> v \<in> B) \<or> ([] \<in> A \<and> c # w \<in> B)"
  proof (cases u)
    case Nil
    with uv show ?thesis by simp
  next
    case (Cons a u')
    with uv have "w = u' @ v" "c # u' \<in> A" by auto
    with uv show ?thesis by blast
  qed
next
  assume "(\<exists>u v. w = u @ v \<and> c # u \<in> A \<and> v \<in> B) \<or> ([] \<in> A \<and> c # w \<in> B)"
  then show "c # w \<in> conc A B"
  proof
    assume "\<exists>u v. w = u @ v \<and> c # u \<in> A \<and> v \<in> B"
    then obtain u v where "w = u @ v" "c # u \<in> A" "v \<in> B" by blast
    then have "c # w = (c # u) @ v \<and> c # u \<in> A \<and> v \<in> B" by simp
    then show ?thesis unfolding conc_def by blast
  next
    assume "[] \<in> A \<and> c # w \<in> B"
    then have "c # w = [] @ (c # w) \<and> [] \<in> A \<and> c # w \<in> B" by simp
    then show ?thesis unfolding conc_def by blast
  qed
qed

lemma star_Cons_split:
  assumes "x \<in> star A" and "x = c # w"
  shows "\<exists>u v. w = u @ v \<and> c # u \<in> A \<and> v \<in> star A"
  using assms
proof (induction rule: star.induct)
  case star_Nil
  then show ?case by simp
next
  case (star_app u v)
  show ?case
  proof (cases u)
    case Nil
    with star_app show ?thesis by simp
  next
    case (Cons a u')
    with star_app.prems have "w = u' @ v" "a = c" by auto
    with Cons star_app.hyps show ?thesis by blast
  qed
qed

lemma Cons_in_star:
  "c # w \<in> star A \<longleftrightarrow> (\<exists>u v. w = u @ v \<and> c # u \<in> A \<and> v \<in> star A)"
proof
  assume "c # w \<in> star A"
  then show "\<exists>u v. w = u @ v \<and> c # u \<in> A \<and> v \<in> star A"
    by (rule star_Cons_split) simp
next
  assume "\<exists>u v. w = u @ v \<and> c # u \<in> A \<and> v \<in> star A"
  then obtain u v where "w = u @ v" "c # u \<in> A" "v \<in> star A" by blast
  then show "c # w \<in> star A"
    using star_app [of "c # u" A v] by simp
qed

lemma lang_deriv: "w \<in> lang (deriv c r) \<longleftrightarrow> c # w \<in> lang r"
proof (induction r arbitrary: w)
  case (Seq r s)
  then show ?case
    by (simp add: lang_alt lang_seq Cons_in_conc nullable_iff) (auto simp: conc_def)
next
  case (Star r)
  then show ?case
    by (simp add: lang_seq Cons_in_star) (auto simp: conc_def)
qed (auto simp: lang_alt)

lemma full_match_iff: "full_match r s \<longleftrightarrow> s \<in> lang r"
  by (induction s arbitrary: r) (simp_all add: nullable_iff lang_deriv)

lemma prefix_match_iff: "prefix_match r s \<longleftrightarrow> (\<exists>u v. s = u @ v \<and> u \<in> lang r)"
proof (induction s arbitrary: r)
  case Nil
  then show ?case by (simp add: nullable_iff)
next
  case (Cons c cs)
  have "(\<exists>u v. c # cs = u @ v \<and> u \<in> lang r) \<longleftrightarrow>
        [] \<in> lang r \<or> (\<exists>u v. cs = u @ v \<and> c # u \<in> lang r)"
    by (auto simp: Cons_eq_append_conv)
  with Cons show ?case by (simp add: nullable_iff lang_deriv)
qed

lemma any_suffix_iff: "any_suffix P s \<longleftrightarrow> (\<exists>u v. s = u @ v \<and> P v)"
proof (induction s)
  case Nil
  then show ?case by simp
next
  case (Cons c cs)
  have "(\<exists>u v. c # cs = u @ v \<and> P v) \<longleftrightarrow> P (c # cs) \<or> (\<exists>u v. cs = u @ v \<and> P v)"
    by (auto simp: Cons_eq_append_conv)
  with Cons show ?case by simp
qed


subsection \<open>What the patterns of the source accept\<close>

lemma startsWith_iff: "startsWith s p \<longleftrightarrow> (\<exists>v. s = p @ v)"
  by (induction s p rule: startsWith.induct) auto

lemma str_includes_iff: "str_includes s t \<longleftrightarrow> (\<exists>u v. s = u @ t @ v)"
proof -
  have "str_includes s t \<longleftrightarrow> (\<exists>u w. s = u @ w \<and> (\<exists>v. w = t @ v))"
    by (simp add: str_includes_def any_suffix_iff startsWith_iff)
  also have "\<dots> \<longleftrightarrow> (\<exists>u v. s = u @ t @ v)"
    by blast
  finally show ?thesis .
qed

lemma lang_lit: "lang (lit p) = {p}"
  by (induction p) (auto simp: conc_def)

lemma in_lang_Seq_lit: "w \<in> lang (Seq (lit p) r) \<longleftrightarrow> (\<exists>v. w = p @ v \<and> v \<in> lang r)"
  unfolding lang.simps(5) lang_lit conc_def by blast

lemma in_conc_atom:
  "w \<in> conc {[c] | c. atom_ok a c} B \<longleftrightarrow> (\<exists>c v. w = c # v \<and> atom_ok a c \<and> v \<in> B)"
proof
  assume "w \<in> conc {[c] | c. atom_ok a c} B"
  then obtain u v where "w = u @ v" "u \<in> {[c] | c. atom_ok a c}" "v \<in> B"
    unfolding conc_def by blast
  then show "\<exists>c v. w = c # v \<and> atom_ok a c \<and> v \<in> B" by auto
next
  assume "\<exists>c v. w = c # v \<and> atom_ok a c \<and> v \<in> B"
  then obtain c v where cv: "w = c # v" "atom_ok a c" "v \<in> B" by blast
  then have "w = [c] @ v \<and> [c] \<in> {[c] | c. atom_ok a c} \<and> v \<in> B" by simp
  then show "w \<in> conc {[c] | c. atom_ok a c} B" unfolding conc_def by blast
qed

lemma atoms_in_star: "\<forall>c\<in>set w. atom_ok a c \<Longrightarrow> w \<in> star (lang (Atm a))"
proof (induction w)
  case Nil
  show ?case by (rule star_Nil)
next
  case (Cons c w)
  then have "[c] \<in> lang (Atm a)" "w \<in> star (lang (Atm a))" by auto
  then have "[c] @ w \<in> star (lang (Atm a))" by (rule star_app)
  then show ?case by simp
qed

lemma star_atoms: "w \<in> star (lang (Atm a)) \<Longrightarrow> \<forall>c\<in>set w. atom_ok a c"
  by (induction rule: star.induct) auto

lemma in_lang_Star_atom: "w \<in> lang (Star (Atm a)) \<longleftrightarrow> (\<forall>c\<in>set w. atom_ok a c)"
proof
  assume "w \<in> lang (Star (Atm a))"
  then have "w \<in> star (lang (Atm a))" by simp
  then show "\<forall>c\<in>set w. atom_ok a c" by (rule star_atoms)
next
  assume "\<forall>c\<in>set w. atom_ok a c"
  then have "w \<in> star (lang (Atm a))" by (rule atoms_in_star)
  then show "w \<in> lang (Star (Atm a))" by simp
qed

lemma in_lang_Plus_atom:
  "w \<in> lang (Plus (Atm a)) \<longleftrightarrow> w \<noteq> [] \<and> (\<forall>c\<in>set w. atom_ok a c)"
proof -
  have "w \<in> lang (Plus (Atm a)) \<longleftrightarrow> (\<exists>c v. w = c # v \<and> atom_ok a c \<and> v \<in> lang (Star (Atm a)))"
    by (simp add: Plus_def in_conc_atom)
  also have "\<dots> \<longleftrightarrow> w \<noteq> [] \<and> (\<forall>c\<in>set w. atom_ok a c)"
    unfolding in_lang_Star_atom by (cases w) auto
  finally show ?thesis .
qed

lemma in_lang_Times_atom:
  "w \<in> lang (Times n (Atm a)) \<longleftrightarrow> length w = n \<and> (\<forall>c\<in>set w. atom_ok a c)"
proof (induction n arbitrary: w)
  case 0
  then show ?case by auto
next
  case (Suc n)
  have "w \<in> lang (Times (Suc n) (Atm a)) \<longleftrightarrow>
        (\<exists>c v. w = c # v \<and> atom_ok a c \<and> v \<in> lang (Times n (Atm a)))"
    by (simp add: in_conc_atom)
  then show ?case unfolding Suc by (cases w) auto
qed

lemma in_lang_Upto_atom:
  "w \<in> lang (Upto n (Atm a)) \<longleftrightarrow> length w \<le> n \<and> (\<forall>c\<in>set w. atom_ok a c)"
proof (induction n arbitrary: w)
  case 0
  then show ?case by auto
next
  case (Suc n)
  have "w \<in> lang (Upto (Suc n) (Atm a)) \<longleftrightarrow>
        w = [] \<or> (\<exists>c v. w = c # v \<and> atom_ok a c \<and> v \<in> lang (Upto n (Atm a)))"
    by (simp add: in_conc_atom)
  then show ?case unfolding Suc by (cases w) auto
qed

lemma in_lang_Rep_atom:
  assumes "n \<le> m"
  shows "w \<in> lang (Rep n m (Atm a)) \<longleftrightarrow>
         n \<le> length w \<and> length w \<le> m \<and> (\<forall>c\<in>set w. atom_ok a c)"
proof
  assume "w \<in> lang (Rep n m (Atm a))"
  then obtain u v where "w = u @ v" "u \<in> lang (Times n (Atm a))" "v \<in> lang (Upto (m - n) (Atm a))"
    unfolding Rep_def lang.simps(5) conc_def by blast
  with assms show "n \<le> length w \<and> length w \<le> m \<and> (\<forall>c\<in>set w. atom_ok a c)"
    by (auto simp: in_lang_Times_atom in_lang_Upto_atom)
next
  assume w: "n \<le> length w \<and> length w \<le> m \<and> (\<forall>c\<in>set w. atom_ok a c)"
  then have "take n w \<in> lang (Times n (Atm a))"
    by (auto simp: in_lang_Times_atom dest: in_set_takeD)
  moreover from w have "drop n w \<in> lang (Upto (m - n) (Atm a))"
    by (auto simp: in_lang_Upto_atom dest: in_set_dropD)
  moreover have "w = take n w @ drop n w" by simp
  ultimately show "w \<in> lang (Rep n m (Atm a))"
    unfolding Rep_def lang.simps(5) conc_def by blast
qed

lemma RegExp_test_anchored: "RegExp_test (anchored r) s \<longleftrightarrow> s \<in> lang r"
  by (simp add: RegExp_test_def anchored_def full_match_iff)




lemma fold_case_lit: "fold_case (lit p) = lit (toLowerCase p)"
  by (induction p) (simp_all add: toLowerCase_def)

lemma RegExp_test_unanchored_i_lit:
  "RegExp_test (unanchored_i (lit p)) s \<longleftrightarrow> str_includes (toLowerCase s) (toLowerCase p)"
proof -
  have "RegExp_test (unanchored_i (lit p)) s \<longleftrightarrow>
        (\<exists>u w. toLowerCase s = u @ w \<and> (\<exists>m v. w = m @ v \<and> m \<in> {toLowerCase p}))"
    unfolding RegExp_test_def unanchored_i_def
    by (simp add: fold_case_lit any_suffix_iff prefix_match_iff lang_lit)
  also have "\<dots> \<longleftrightarrow> (\<exists>u v. toLowerCase s = u @ toLowerCase p @ v)"
    by blast
  finally show ?thesis unfolding str_includes_iff .
qed


section \<open>Properties of the Navigation Classifier\<close>

lemma test_exact: "RegExp_test (anchored (lit p)) s \<longleftrightarrow> s = p"
  by (simp add: RegExp_test_anchored lang_lit)

lemma in_lang_Opt: "w \<in> lang (Opt r) \<longleftrightarrow> w \<in> lang r \<or> w = []"
  by (auto simp: Opt_def)

lemma in_lang_Seq_Chr:
  "w \<in> lang (Seq (Atm (Chr c)) r) \<longleftrightarrow> (\<exists>v. w = c # v \<and> v \<in> lang r)"
  using in_conc_atom [of w "Chr c" "lang r"] by simp

lemma no_lt_suffix:
  assumes "\<not> list_ex lineTerminator s" and "s = u @ v"
  shows "\<forall>c\<in>set v. atom_ok Dot c"
  using assms by (auto simp: list_ex_iff)

lemma test_prefix:
  assumes "\<not> list_ex lineTerminator s"
  shows "RegExp_test (anchored (Seq (lit p) (Opt (Seq (Atm (Chr CHR ''/'')) (Star (Atm Dot)))))) s
         \<longleftrightarrow> s = p \<or> startsWith s (p @ ''/'')"
proof -
  have "RegExp_test (anchored (Seq (lit p) (Opt (Seq (Atm (Chr CHR ''/'')) (Star (Atm Dot)))))) s
        \<longleftrightarrow> (\<exists>v. s = p @ v \<and> ((\<exists>w. v = CHR ''/'' # w \<and> (\<forall>c\<in>set w. atom_ok Dot c)) \<or> v = []))"
    unfolding RegExp_test_anchored in_lang_Seq_lit in_lang_Opt in_lang_Seq_Chr in_lang_Star_atom ..
  also have "\<dots> \<longleftrightarrow> s = p \<or> (\<exists>w. s = (p @ ''/'') @ w)"
    using no_lt_suffix [OF assms, of "p @ ''/''"] by auto
  finally show ?thesis unfolding startsWith_iff .
qed

lemma test_template:
  assumes "\<not> list_ex lineTerminator s"
  shows "RegExp_test (anchored (Seq (lit p) (Plus (Atm Dot)))) s
         \<longleftrightarrow> startsWith s p \<and> 0 < length (drop (length p) s)"
proof -
  have "RegExp_test (anchored (Seq (lit p) (Plus (Atm Dot)))) s
        \<longleftrightarrow> (\<exists>v. s = p @ v \<and> v \<noteq> [] \<and> (\<forall>c\<in>set v. atom_ok Dot c))"
    unfolding RegExp_test_anchored in_lang_Seq_lit in_lang_Plus_atom ..
  also have "\<dots> \<longleftrightarrow> (\<exists>v. s = p @ v) \<and> 0 < length (drop (length p) s)"
    using no_lt_suffix [OF assms, of p] by auto
  finally show ?thesis unfolding startsWith_iff .
qed

lemma atom_ok_handle_class: "atom_ok handle_class c = handle_char c"
  by (auto simp: handle_class_def handle_char_def in_ranges_def Let_def)

lemma test_handle:
  "RegExp_test (anchored (Seq (Atm (Chr CHR ''/'')) (Rep 1 15 (Atm handle_class)))) s
   \<longleftrightarrow> startsWith s ''/'' \<and> 1 \<le> length (drop 1 s) \<and> length (drop 1 s) \<le> 15
       \<and> list_all handle_char (drop 1 s)"
proof -
  have "RegExp_test (anchored (Seq (Atm (Chr CHR ''/'')) (Rep 1 15 (Atm handle_class)))) s
        \<longleftrightarrow> (\<exists>v. s = CHR ''/'' # v \<and> 1 \<le> length v \<and> length v \<le> 15 \<and> (\<forall>c\<in>set v. handle_char c))"
    unfolding RegExp_test_anchored in_lang_Seq_Chr
    by (simp add: in_lang_Rep_atom atom_ok_handle_class)
  also have "\<dots> \<longleftrightarrow> (\<exists>v. s = ''/'' @ v) \<and> 1 \<le> length (drop 1 s) \<and> length (drop 1 s) \<le> 15
       \<and> list_all handle_char (drop 1 s)"
    by (auto simp: list_all_iff)
  finally show ?thesis unfolding startsWith_iff .
qed

lemma allowed_iff_whitelisted:
  assumes "\<not> list_ex lineTerminator p"
  shows "list_ex (\<lambda>pattern. RegExp_test pattern p) allowedPatterns = whitelisted_path p"
  unfolding allowedPatterns_def list_ex_Cons_iff list_ex_Nil_iff test_exact test_prefix [OF assms]
    test_template [OF assms] test_handle whitelisted_path_def
  by auto

lemma columnType_iff_whitelisted:
  assumes "\<not> list_ex lineTerminator (pathname u)"
  shows "(let p = pathname u in
          if p = ''/home'' then CT_home
          else if p = ''/notifications'' then CT_notifications
          else if p = ''/messages'' \<or> startsWith p ''/messages/'' then CT_messages
          else if p = ''/search'' then CT_search
          else if RegExp_test (anchored (Seq (lit ''/i/lists/'') (Plus (Atm Dot)))) p then CT_list
          else if p = ''/explore'' \<or> startsWith p ''/explore/'' then CT_explore
          else if p = ''/i/bookmarks'' then CT_bookmarks
          else if RegExp_test (anchored (Seq (lit ''/i/communities/'') (Plus (Atm Dot)))) p
               then CT_community
          else if RegExp_test (anchored (Seq (Atm (Chr CHR ''/'')) (Rep 1 15 (Atm handle_class)))) p
               then CT_user_profile
          else CT_unknown) \<noteq> CT_unknown \<longleftrightarrow> whitelisted_path (pathname u)"
  unfolding Let_def test_template [OF assms] test_handle whitelisted_path_def
  by auto

lemma simple_URL_pathname:
  assumes "simple_URL s = Some u"
  shows "\<not> list_ex lineTerminator (pathname u)"
proof -
  define t where "t = filter (\<lambda>c. (of_char c :: nat) \<notin> {9, 10, 13}) s"
  have t: "\<forall>c\<in>set t. \<not> lineTerminator c"
    by (auto simp: t_def lineTerminator_def)
  have "set (pathname u) \<subseteq> set t \<union> {CHR ''/''}"
    using assms unfolding simple_URL_def t_def [symmetric] Let_def
    by (auto split: if_splits option.splits dest!: set_takeWhileD set_dropWhileD in_set_dropD)
  moreover have "\<not> lineTerminator CHR ''/''"
    by (simp add: lineTerminator_def)
  ultimately show ?thesis using t by (auto simp: list_ex_iff)
qed


text \<open>
  C7 (as amended). For every URL string, \<open>shouldRecordUrl\<close> accepts exactly the URLs
  whose path has one of these shapes (\<open>whitelisted_path\<close>): the exact paths \<open>/home\<close>,
  \<open>/notifications\<close>, \<open>/search\<close>, \<open>/i/bookmarks\<close>; \<open>/messages\<close> and \<open>/explore\<close>
  with optional sub-paths; \<open>/i/lists/\<close> and \<open>/i/communities/\<close> followed by any
  non-empty remainder, sub-paths included; one segment of 1 to 15 letters, digits and
  underscores. A malformed URL (the parser throws) yields \<open>False\<close>. The parser is any
  function whose paths hold no line terminator, as the platform's does.
\<close>

theorem shouldRecordUrl_accepts_whitelisted_paths:
  assumes "\<forall>u. newURL url = Some u \<longrightarrow> \<not> list_ex lineTerminator (pathname u)"
  shows "shouldRecordUrl newURL url =
         (case newURL url of None \<Rightarrow> False | Some u \<Rightarrow> whitelisted_path (pathname u))"
proof (cases "newURL url")
  case None
  then show ?thesis by (simp add: shouldRecordUrl_def)
next
  case (Some u)
  with assms have "\<not> list_ex lineTerminator (pathname u)" by simp
  with Some show ?thesis by (simp add: shouldRecordUrl_def allowed_iff_whitelisted)
qed

theorem shouldRecordUrl_accepts_whitelisted_paths_witness:
  "shouldRecordUrl simple_URL ''https://x.com/i/lists/12345''
   \<and> \<not> shouldRecordUrl simple_URL ''https://x.com/fronoske/status/1''
   \<and> \<not> shouldRecordUrl simple_URL ''x.com/home''"
proof -
  have h: "\<forall>u. simple_URL url = Some u \<longrightarrow> \<not> list_ex lineTerminator (pathname u)" for url
    using simple_URL_pathname by blast
  have "(case simple_URL ''https://x.com/i/lists/12345'' of
           None \<Rightarrow> False | Some u \<Rightarrow> whitelisted_path (pathname u))"
    by code_simp
  moreover have "\<not> (case simple_URL ''https://x.com/fronoske/status/1'' of
           None \<Rightarrow> False | Some u \<Rightarrow> whitelisted_path (pathname u))"
    by code_simp
  moreover have "\<not> (case simple_URL ''x.com/home'' of
           None \<Rightarrow> False | Some u \<Rightarrow> whitelisted_path (pathname u))"
    by code_simp
  ultimately show ?thesis
    using shouldRecordUrl_accepts_whitelisted_paths [OF h] by simp
qed

text \<open>
  C7 as stated fails: the path \<open>/i/lists/1/members\<close> is none of the listed shapes, the
  list template having one segment after \<open>/i/lists/\<close>, and the whitelist accepts it,
  since its pattern for lists takes any non-empty remainder.
\<close>

theorem list_subpath_accepted_but_not_listed:
  "map_option pathname (simple_URL ''https://x.com/i/lists/1/members'') = Some ''/i/lists/1/members''
   \<and> shouldRecordUrl simple_URL ''https://x.com/i/lists/1/members''
   \<and> \<not> listed_path ''/i/lists/1/members''"
  by code_simp

text \<open>
  C10. For every URL string, \<open>shouldRecordUrl\<close> returns true if and only if
  \<open>getColumnTypeFromUrl\<close> assigns a route kind other than unknown; in particular both
  reject a malformed URL. The parser is any function whose paths hold no line terminator.
\<close>

theorem shouldRecordUrl_iff_known_column_type:
  assumes "\<forall>u. newURL url = Some u \<longrightarrow> \<not> list_ex lineTerminator (pathname u)"
  shows "shouldRecordUrl newURL url \<longleftrightarrow> getColumnTypeFromUrl newURL url \<noteq> CT_unknown"
proof (cases "newURL url")
  case None
  then show ?thesis by (simp add: shouldRecordUrl_def getColumnTypeFromUrl_def)
next
  case (Some u)
  with assms have nolt: "\<not> list_ex lineTerminator (pathname u)" by simp
  have "shouldRecordUrl newURL url = whitelisted_path (pathname u)"
    using Some nolt by (simp add: shouldRecordUrl_def allowed_iff_whitelisted)
  moreover have "getColumnTypeFromUrl newURL url \<noteq> CT_unknown \<longleftrightarrow> whitelisted_path (pathname u)"
    using columnType_iff_whitelisted [OF nolt] Some by (simp add: getColumnTypeFromUrl_def)
  ultimately show ?thesis by simp
qed

theorem shouldRecordUrl_iff_known_column_type_witness:
  "shouldRecordUrl simple_URL ''https://x.com/fronoske''
   \<and> getColumnTypeFromUrl simple_URL ''https://x.com/fronoske'' = CT_user_profile
   \<and> \<not> shouldRecordUrl simple_URL ''https://x.com/fronoske/status/1''
   \<and> \<not> shouldRecordUrl simple_URL '':::''"
proof -
  have h: "\<forall>u. simple_URL url = Some u \<longrightarrow> \<not> list_ex lineTerminator (pathname u)" for url
    using simple_URL_pathname by blast
  have "getColumnTypeFromUrl simple_URL ''https://x.com/fronoske'' = CT_user_profile"
    by code_simp
  moreover have "getColumnTypeFromUrl simple_URL ''https://x.com/fronoske/status/1'' = CT_unknown"
    by code_simp
  moreover have "getColumnTypeFromUrl simple_URL '':::'' = CT_unknown"
    by code_simp
  ultimately show ?thesis
    using shouldRecordUrl_iff_known_column_type [OF h] by simp
qed


section \<open>Properties of the Rate-Limit State Tracker\<close>

lemma toLowerCase_append: "toLowerCase (a @ b) = toLowerCase a @ toLowerCase b"
  by (simp add: toLowerCase_def)

lemma str_includes_toLowerCase:
  assumes "str_includes s t"
  shows "str_includes (toLowerCase s) (toLowerCase t)"
proof -
  from assms obtain u v where "s = u @ t @ v" unfolding str_includes_iff by blast
  then have "toLowerCase s = toLowerCase u @ toLowerCase t @ toLowerCase v"
    by (simp add: toLowerCase_append)
  then show ?thesis unfolding str_includes_iff by blast
qed

lemma str_includes_shorter:
  assumes "str_includes s (t @ t')"
  shows "str_includes s t"
proof -
  from assms obtain u v where "s = u @ (t @ t') @ v" unfolding str_includes_iff by blast
  then have "s = u @ t @ (t' @ v)" by simp
  then show ?thesis unfolding str_includes_iff by blast
qed

lemma toLowerCase_patterns:
  "toLowerCase ''CreateTweet'' = ''createtweet''"
  "toLowerCase ''TweetCreate'' = ''tweetcreate''"
  "toLowerCase ''UserTweets'' = ''usertweets''"
  "toLowerCase ''UserTweetsAndReplies'' = ''usertweets'' @ ''andreplies''"
  "toLowerCase ''HomeLatestTimeline'' = ''homelatesttimeline''"
  by code_simp+

lemma detect_home:
  assumes "str_includes url ''HomeLatestTimeline''"
    and "\<not> str_includes (toLowerCase url) ''createtweet''"
    and "\<not> str_includes (toLowerCase url) ''tweetcreate''"
    and "\<not> str_includes (toLowerCase url) ''usertweets''"
  shows "detectRateLimitCategory url = Some homeLatestTimeline"
proof -
  have home: "str_includes (toLowerCase url) ''homelatesttimeline''"
    using str_includes_toLowerCase [OF assms(1)] by (simp only: toLowerCase_patterns)
  have replies: "\<not> str_includes (toLowerCase url) (''usertweets'' @ ''andreplies'')"
    using assms(4) str_includes_shorter by blast
  show ?thesis
    unfolding detectRateLimitCategory_def RATE_LIMIT_PATTERNS_def
    using home replies assms(2,3,4)
    by (simp only: find.simps list_ex_Cons_iff list_ex_Nil_iff RegExp_test_unanchored_i_lit
        toLowerCase_patterns RateLimitPattern.simps simp_thms if_False if_True option.case)
qed

lemma detect_None_ignored:
  "detectRateLimitCategory (details_url d) = None \<Longrightarrow> onHeadersReceived Number now d st = st"
  by (simp add: onHeadersReceived_def)

text \<open>
  C6 (as amended). The classifier returns the category of the first entry of the ordered
  list one of whose patterns matches the request target. A target containing
  \<open>HomeLatestTimeline\<close> and matching no pattern of the two entries before it
  (\<open>CreateTweet\<close>, \<open>TweetCreate\<close>, \<open>UserTweets\<close>, in any letter case) classifies as the
  home-timeline category. A target matching no pattern has no category, and then the
  listener leaves the tracker's state as it was.
\<close>

theorem detectRateLimitCategory_first_match:
  "(detectRateLimitCategory url = Some c \<longleftrightarrow>
      (\<exists>i<length RATE_LIMIT_PATTERNS.
          category (RATE_LIMIT_PATTERNS ! i) = c
        \<and> list_ex (\<lambda>pattern. RegExp_test pattern url) (patterns (RATE_LIMIT_PATTERNS ! i))
        \<and> (\<forall>j<i. \<not> list_ex (\<lambda>pattern. RegExp_test pattern url)
                      (patterns (RATE_LIMIT_PATTERNS ! j)))))
   \<and> (str_includes url ''HomeLatestTimeline''
        \<and> \<not> str_includes (toLowerCase url) ''createtweet''
        \<and> \<not> str_includes (toLowerCase url) ''tweetcreate''
        \<and> \<not> str_includes (toLowerCase url) ''usertweets''
      \<longrightarrow> detectRateLimitCategory url = Some homeLatestTimeline)
   \<and> (detectRateLimitCategory url = None \<longleftrightarrow>
        (\<forall>rule\<in>set RATE_LIMIT_PATTERNS. \<forall>pattern\<in>set (patterns rule). \<not> RegExp_test pattern url))
   \<and> (detectRateLimitCategory (details_url d) = None
      \<longrightarrow> onHeadersReceived Number now d st = st)"
proof (intro conjI impI)
  show "detectRateLimitCategory url = Some c \<longleftrightarrow>
      (\<exists>i<length RATE_LIMIT_PATTERNS.
          category (RATE_LIMIT_PATTERNS ! i) = c
        \<and> list_ex (\<lambda>pattern. RegExp_test pattern url) (patterns (RATE_LIMIT_PATTERNS ! i))
        \<and> (\<forall>j<i. \<not> list_ex (\<lambda>pattern. RegExp_test pattern url)
                      (patterns (RATE_LIMIT_PATTERNS ! j))))"
  proof -
    have "detectRateLimitCategory url = Some c \<longleftrightarrow>
          (\<exists>x. find (\<lambda>rule. list_ex (\<lambda>pattern. RegExp_test pattern url) (patterns rule))
                  RATE_LIMIT_PATTERNS = Some x \<and> category x = c)"
      unfolding detectRateLimitCategory_def by (auto split: option.splits)
    also have "\<dots> \<longleftrightarrow>
      (\<exists>i<length RATE_LIMIT_PATTERNS.
          category (RATE_LIMIT_PATTERNS ! i) = c
        \<and> list_ex (\<lambda>pattern. RegExp_test pattern url) (patterns (RATE_LIMIT_PATTERNS ! i))
        \<and> (\<forall>j<i. \<not> list_ex (\<lambda>pattern. RegExp_test pattern url)
                      (patterns (RATE_LIMIT_PATTERNS ! j))))"
      unfolding find_Some_iff by blast
    finally show ?thesis .
  qed
next
  assume "str_includes url ''HomeLatestTimeline''
        \<and> \<not> str_includes (toLowerCase url) ''createtweet''
        \<and> \<not> str_includes (toLowerCase url) ''tweetcreate''
        \<and> \<not> str_includes (toLowerCase url) ''usertweets''"
  then show "detectRateLimitCategory url = Some homeLatestTimeline"
    using detect_home by blast
next
  show "detectRateLimitCategory url = None \<longleftrightarrow>
        (\<forall>rule\<in>set RATE_LIMIT_PATTERNS. \<forall>pattern\<in>set (patterns rule). \<not> RegExp_test pattern url)"
  proof -
    have "detectRateLimitCategory url = None \<longleftrightarrow>
          find (\<lambda>rule. list_ex (\<lambda>pattern. RegExp_test pattern url) (patterns rule))
            RATE_LIMIT_PATTERNS = None"
      unfolding detectRateLimitCategory_def by (auto split: option.splits)
    also have "\<dots> \<longleftrightarrow>
        (\<forall>rule\<in>set RATE_LIMIT_PATTERNS. \<forall>pattern\<in>set (patterns rule). \<not> RegExp_test pattern url)"
      unfolding find_None_iff list_ex_iff by blast
    finally show ?thesis .
  qed
next
  assume "detectRateLimitCategory (details_url d) = None"
  then show "onHeadersReceived Number now d st = st"
    by (rule detect_None_ignored)
qed


theorem detectRateLimitCategory_first_match_witness:
  "detectRateLimitCategory ''https://x.com/i/api/graphql/abc/HomeLatestTimeline'' = Some homeLatestTimeline
   \<and> onHeadersReceived Number_dec 1699999999
        \<lparr>details_url = ''https://x.com/i/api/1.1/help/settings.json'',
         responseHeaders = Some [\<lparr>header_name = Some ''x-rate-limit-remaining'',
                                  header_value = Some ''5''\<rparr>]\<rparr>
        \<lparr>rateLimitState = DEFAULT_RATE_LIMIT_STATE, storage_writes = []\<rparr>
      = \<lparr>rateLimitState = DEFAULT_RATE_LIMIT_STATE, storage_writes = []\<rparr>"
proof -
  have a: "str_includes ''https://x.com/i/api/graphql/abc/HomeLatestTimeline'' ''HomeLatestTimeline''
        \<and> \<not> str_includes (toLowerCase ''https://x.com/i/api/graphql/abc/HomeLatestTimeline'') ''createtweet''
        \<and> \<not> str_includes (toLowerCase ''https://x.com/i/api/graphql/abc/HomeLatestTimeline'') ''tweetcreate''
        \<and> \<not> str_includes (toLowerCase ''https://x.com/i/api/graphql/abc/HomeLatestTimeline'') ''usertweets''"
    by code_simp
  have b: "detectRateLimitCategory
             (details_url \<lparr>details_url = ''https://x.com/i/api/1.1/help/settings.json'',
                responseHeaders = Some [\<lparr>header_name = Some ''x-rate-limit-remaining'',
                                         header_value = Some ''5''\<rparr>]\<rparr>) = None"
    by code_simp
  show ?thesis
    using a b
      detectRateLimitCategory_first_match
        [of "''https://x.com/i/api/graphql/abc/HomeLatestTimeline''" homeLatestTimeline
            "\<lparr>details_url = ''https://x.com/i/api/1.1/help/settings.json'',
              responseHeaders = Some [\<lparr>header_name = Some ''x-rate-limit-remaining'',
                                       header_value = Some ''5''\<rparr>]\<rparr>"
            Number_dec 1699999999
            "\<lparr>rateLimitState = DEFAULT_RATE_LIMIT_STATE, storage_writes = []\<rparr>"]
    by blast
qed

text \<open>
  C6 as stated fails: this target contains \<open>HomeLatestTimeline\<close>, and the entry for
  post creation, which stands earlier in the list, matches it first.
\<close>

theorem HomeLatestTimeline_target_classified_tweetPost:
  "str_includes ''https://x.com/i/api/graphql/abc/HomeLatestTimeline?ref=CreateTweet''
     ''HomeLatestTimeline''
   \<and> detectRateLimitCategory ''https://x.com/i/api/graphql/abc/HomeLatestTimeline?ref=CreateTweet''
       = Some tweetPost
   \<and> detectRateLimitCategory ''https://x.com/i/api/graphql/abc/HomeLatestTimeline?ref=CreateTweet''
       \<noteq> Some homeLatestTimeline"
  by code_simp

text \<open>
  C1. For a completion whose target has category \<open>c\<close>, each of the three fields of the
  category's record after the listener ran is the observed value when the header gave
  one, and the prior value otherwise. When the merged triple differs from the prior one
  (the merge signals "changed"), the record is overwritten, stamped with the current
  instant, and the whole map is written to storage. The witness is the specification's
  example: remaining 5 merged into ceiling 100, remaining 50, reset 1700000000.
\<close>

theorem onHeadersReceived_merges_observed_fields:
  assumes "detectRateLimitCategory (details_url d) = Some c"
  shows "let previous = rateLimitState st c;
             h_limit = getHeaderValue Number (responseHeaders d) ''x-rate-limit-limit'';
             h_remaining = getHeaderValue Number (responseHeaders d) ''x-rate-limit-remaining'';
             h_resetAt = getHeaderValue Number (responseHeaders d) ''x-rate-limit-reset'';
             st' = onHeadersReceived Number now d st;
             merged = rateLimitState st' c
         in limit merged = (case h_limit of None \<Rightarrow> limit previous | Some v \<Rightarrow> Some v)
          \<and> remaining merged = (case h_remaining of None \<Rightarrow> remaining previous | Some v \<Rightarrow> Some v)
          \<and> resetAt merged = (case h_resetAt of None \<Rightarrow> resetAt previous | Some v \<Rightarrow> Some v)
          \<and> ((limit merged, remaining merged, resetAt merged)
                \<noteq> (limit previous, remaining previous, resetAt previous)
              \<longrightarrow> lastUpdated merged = Some now
                \<and> rateLimitState st' = (rateLimitState st)(c := merged)
                \<and> storage_writes st' = storage_writes st @ [rateLimitState st'])"
  using assms
  by (auto simp: onHeadersReceived_def Let_def split: option.splits)

theorem onHeadersReceived_merges_observed_fields_witness:
  "rateLimitState
     (onHeadersReceived Number_dec 1699999999
        \<lparr>details_url = ''https://x.com/i/api/graphql/abc/HomeLatestTimeline'',
         responseHeaders = Some [\<lparr>header_name = Some ''X-Rate-Limit-Remaining'',
                                  header_value = Some ''5''\<rparr>]\<rparr>
        \<lparr>rateLimitState = DEFAULT_RATE_LIMIT_STATE
           (homeLatestTimeline := \<lparr>limit = Some 100, remaining = Some 50,
              resetAt = Some 1700000000, lastUpdated = Some 1699990000\<rparr>),
         storage_writes = []\<rparr>) homeLatestTimeline
   = \<lparr>limit = Some 100, remaining = Some 5, resetAt = Some 1700000000,
      lastUpdated = Some 1699999999\<rparr>
   \<and> length (storage_writes
       (onHeadersReceived Number_dec 1699999999
        \<lparr>details_url = ''https://x.com/i/api/graphql/abc/HomeLatestTimeline'',
         responseHeaders = Some [\<lparr>header_name = Some ''X-Rate-Limit-Remaining'',
                                  header_value = Some ''5''\<rparr>]\<rparr>
        \<lparr>rateLimitState = DEFAULT_RATE_LIMIT_STATE
           (homeLatestTimeline := \<lparr>limit = Some 100, remaining = Some 50,
              resetAt = Some 1700000000, lastUpdated = Some 1699990000\<rparr>),
         storage_writes = []\<rparr>)) = 1"
proof -
  define d where "d = \<lparr>details_url = ''https://x.com/i/api/graphql/abc/HomeLatestTimeline'',
         responseHeaders = Some [\<lparr>header_name = Some ''X-Rate-Limit-Remaining'',
                                  header_value = Some ''5''\<rparr>]\<rparr>"
  define st :: "int tracker" where "st = \<lparr>rateLimitState = DEFAULT_RATE_LIMIT_STATE
           (homeLatestTimeline := \<lparr>limit = Some 100, remaining = Some 50,
              resetAt = Some 1700000000, lastUpdated = Some 1699990000\<rparr>),
         storage_writes = []\<rparr>"
  have c: "detectRateLimitCategory (details_url d) = Some homeLatestTimeline"
    unfolding d_def by code_simp
  have h: "getHeaderValue Number_dec (responseHeaders d) ''x-rate-limit-limit'' = None"
    "getHeaderValue Number_dec (responseHeaders d) ''x-rate-limit-remaining'' = Some 5"
    "getHeaderValue Number_dec (responseHeaders d) ''x-rate-limit-reset'' = None"
    unfolding d_def by code_simp+
  have p: "rateLimitState st homeLatestTimeline = \<lparr>limit = Some 100, remaining = Some 50,
              resetAt = Some 1700000000, lastUpdated = Some 1699990000\<rparr>"
    "storage_writes st = []"
    by (simp_all add: st_def)
  show ?thesis
    using onHeadersReceived_merges_observed_fields [OF c, of st Number_dec 1699999999]
    unfolding d_def [symmetric] st_def [symmetric]
    by (simp add: Let_def h p)
qed

text \<open>
  C2. The listener leaves the tracker's state, the category's record and the sequence of
  storage writes included, exactly as it was in both cases: when all three observed
  header fields are null, and when the merged triple equals the category's prior triple.
\<close>

theorem onHeadersReceived_suppresses_unchanged:
  assumes "detectRateLimitCategory (details_url d) = Some c"
    and "(getHeaderValue Number (responseHeaders d) ''x-rate-limit-limit'' = None
          \<and> getHeaderValue Number (responseHeaders d) ''x-rate-limit-remaining'' = None
          \<and> getHeaderValue Number (responseHeaders d) ''x-rate-limit-reset'' = None)
       \<or> ((case getHeaderValue Number (responseHeaders d) ''x-rate-limit-limit'' of
              None \<Rightarrow> limit (rateLimitState st c) | Some v \<Rightarrow> Some v) = limit (rateLimitState st c)
          \<and> (case getHeaderValue Number (responseHeaders d) ''x-rate-limit-remaining'' of
              None \<Rightarrow> remaining (rateLimitState st c) | Some v \<Rightarrow> Some v)
             = remaining (rateLimitState st c)
          \<and> (case getHeaderValue Number (responseHeaders d) ''x-rate-limit-reset'' of
              None \<Rightarrow> resetAt (rateLimitState st c) | Some v \<Rightarrow> Some v)
             = resetAt (rateLimitState st c))"
  shows "onHeadersReceived Number now d st = st"
  using assms
  by (auto simp: onHeadersReceived_def Let_def split: option.splits)

theorem onHeadersReceived_suppresses_unchanged_witness:
  "onHeadersReceived Number_dec 1699999999
     \<lparr>details_url = ''https://x.com/i/api/graphql/abc/HomeLatestTimeline'',
      responseHeaders = Some [\<lparr>header_name = Some ''content-type'',
                               header_value = Some ''application/json''\<rparr>]\<rparr>
     \<lparr>rateLimitState = DEFAULT_RATE_LIMIT_STATE
        (homeLatestTimeline := \<lparr>limit = Some 100, remaining = Some 50,
           resetAt = Some 1700000000, lastUpdated = Some 1699990000\<rparr>),
      storage_writes = []\<rparr>
   = \<lparr>rateLimitState = DEFAULT_RATE_LIMIT_STATE
        (homeLatestTimeline := \<lparr>limit = Some 100, remaining = Some 50,
           resetAt = Some 1700000000, lastUpdated = Some 1699990000\<rparr>),
      storage_writes = []\<rparr>
   \<and> onHeadersReceived Number_dec 1699999999
     \<lparr>details_url = ''https://x.com/i/api/graphql/abc/HomeLatestTimeline'',
      responseHeaders = Some [\<lparr>header_name = Some ''x-rate-limit-remaining'',
                               header_value = Some ''50''\<rparr>]\<rparr>
     \<lparr>rateLimitState = DEFAULT_RATE_LIMIT_STATE
        (homeLatestTimeline := \<lparr>limit = Some 100, remaining = Some 50,
           resetAt = Some 1700000000, lastUpdated = Some 1699990000\<rparr>),
      storage_writes = []\<rparr>
   = \<lparr>rateLimitState = DEFAULT_RATE_LIMIT_STATE
        (homeLatestTimeline := \<lparr>limit = Some 100, remaining = Some 50,
           resetAt = Some 1700000000, lastUpdated = Some 1699990000\<rparr>),
      storage_writes = []\<rparr>"
proof -
  define d1 where "d1 = \<lparr>details_url = ''https://x.com/i/api/graphql/abc/HomeLatestTimeline'',
      responseHeaders = Some [\<lparr>header_name = Some ''content-type'',
                               header_value = Some ''application/json''\<rparr>]\<rparr>"
  define d2 where "d2 = \<lparr>details_url = ''https://x.com/i/api/graphql/abc/HomeLatestTimeline'',
      responseHeaders = Some [\<lparr>header_name = Some ''x-rate-limit-remaining'',
                               header_value = Some ''50''\<rparr>]\<rparr>"
  define st :: "int tracker" where "st = \<lparr>rateLimitState = DEFAULT_RATE_LIMIT_STATE
        (homeLatestTimeline := \<lparr>limit = Some 100, remaining = Some 50,
           resetAt = Some 1700000000, lastUpdated = Some 1699990000\<rparr>),
      storage_writes = []\<rparr>"
  have c: "detectRateLimitCategory (details_url d1) = Some homeLatestTimeline"
    "detectRateLimitCategory (details_url d2) = Some homeLatestTimeline"
    unfolding d1_def d2_def by code_simp+
  have h1: "getHeaderValue Number_dec (responseHeaders d1) ''x-rate-limit-limit'' = None"
    "getHeaderValue Number_dec (responseHeaders d1) ''x-rate-limit-remaining'' = None"
    "getHeaderValue Number_dec (responseHeaders d1) ''x-rate-limit-reset'' = None"
    unfolding d1_def by code_simp+
  have h2: "getHeaderValue Number_dec (responseHeaders d2) ''x-rate-limit-limit'' = None"
    "getHeaderValue Number_dec (responseHeaders d2) ''x-rate-limit-remaining'' = Some 50"
    "getHeaderValue Number_dec (responseHeaders d2) ''x-rate-limit-reset'' = None"
    unfolding d2_def by code_simp+
  have p: "remaining (rateLimitState st homeLatestTimeline) = Some 50"
    by (simp add: st_def)
  have "onHeadersReceived Number_dec 1699999999 d1 st = st"
    by (rule onHeadersReceived_suppresses_unchanged [OF c(1)]) (simp add: h1)
  moreover have "onHeadersReceived Number_dec 1699999999 d2 st = st"
    by (rule onHeadersReceived_suppresses_unchanged [OF c(2)]) (simp add: h2 p)
  ultimately show ?thesis
    unfolding d1_def d2_def st_def by simp
qed


section \<open>Properties of the Content Filter Engine\<close>









lemma filterPost_eq:
  "filterPost newRegExp fs p =
     (if filtered_attr p = Some ''1'' then p
      else p\<lparr>style_display := (if list_ex (matchesFilter newRegExp p) fs then ''none''
                                else style_display p),
             filtered_attr := Some ''1''\<rparr>)"
  by (auto simp: filterPost_def Let_def find_None_iff list_ex_iff)

lemma list_ex_enabled:
  "list_ex P (filter enabled fs) \<longleftrightarrow> (\<exists>f\<in>set fs. enabled f \<and> P f)"
  by (auto simp: list_ex_iff)

lemma applyFilters_eq:
  assumes "list_ex enabled filters"
  shows "applyFilters newRegExp doc filters =
         map (\<lambda>p. if filtered_attr p = Some ''1'' then p
                   else p\<lparr>style_display :=
                            (if \<exists>f\<in>set filters. enabled f \<and> matchesFilter newRegExp p f
                             then ''none'' else style_display p),
                          filtered_attr := Some ''1''\<rparr>) doc"
proof -
  from assms have "filter enabled filters \<noteq> []"
    by (auto simp: list_ex_iff filter_empty_conv)
  then show ?thesis
    by (simp add: applyFilters_def filterPosts_def filterPost_eq list_ex_enabled)
qed



lemma invalid_pattern_no_match:
  assumes "textPattern f = Some pat" and "pat \<noteq> []" and "newRegExp pat = None"
  shows "\<not> matchesFilter newRegExp p f"
  using assms by (simp add: matchesFilter_def)

lemma list_ex_drop_rule:
  assumes "\<And>p. \<not> matchesFilter newRegExp p f"
  shows "list_ex (matchesFilter newRegExp p) (filter enabled (fs1 @ f # fs2))
         = list_ex (matchesFilter newRegExp p) (filter enabled (fs1 @ fs2))"
  using assms by (auto simp: list_ex_iff)

lemma display_filterPosts_drop_rule:
  assumes "\<And>p. \<not> matchesFilter newRegExp p f"
  shows "map style_display (filterPosts newRegExp (filter enabled (fs1 @ f # fs2)) doc)
         = map style_display (filterPosts newRegExp (filter enabled (fs1 @ fs2)) doc)"
  unfolding filterPosts_def filterPost_eq list_ex_drop_rule [OF assms]
  by simp

lemma display_filterPosts_no_match:
  assumes "\<And>p. \<not> list_ex (matchesFilter newRegExp p) fs"
  shows "map style_display (filterPosts newRegExp fs doc) = map style_display doc"
  unfolding filterPosts_def filterPost_eq using assms
  by (induction doc) auto

lemma applyFilters_active:
  "filter enabled fs \<noteq> [] \<Longrightarrow>
   applyFilters newRegExp doc fs = filterPosts newRegExp (filter enabled fs) doc"
  by (simp add: applyFilters_def)

lemma applyFilters_inactive:
  "filter enabled fs = [] \<Longrightarrow> applyFilters newRegExp doc fs = doc"
  by (simp add: applyFilters_def)

lemma display_applyFilters_drop_rule:
  assumes "\<And>p. \<not> matchesFilter newRegExp p f"
  shows "map style_display (applyFilters newRegExp doc (fs1 @ f # fs2))
         = map style_display (applyFilters newRegExp doc (fs1 @ fs2))"
proof (cases "filter enabled (fs1 @ fs2) = []")
  case False
  then have ne: "filter enabled (fs1 @ f # fs2) \<noteq> []" by auto
  show ?thesis
    unfolding applyFilters_active [OF False] applyFilters_active [OF ne]
    by (rule display_filterPosts_drop_rule [OF assms])
next
  case True
  note inactive = applyFilters_inactive [OF True]
  show ?thesis
  proof (cases "enabled f")
    case False
    with True have "filter enabled (fs1 @ f # fs2) = []" by simp
    then show ?thesis
      unfolding inactive by (simp add: applyFilters_inactive)
  next
    case en: True
    then have ne: "filter enabled (fs1 @ f # fs2) \<noteq> []" by simp
    have none: "\<not> list_ex (matchesFilter newRegExp p) (filter enabled (fs1 @ f # fs2))" for p
      unfolding list_ex_drop_rule [OF assms] True by simp
    show ?thesis
      unfolding inactive applyFilters_active [OF ne]
      by (rule display_filterPosts_no_match) (rule none)
  qed
qed

lemma applyFilters_drop_rule:
  assumes "\<And>p. \<not> matchesFilter newRegExp p f" and "list_ex enabled (fs1 @ fs2)"
  shows "applyFilters newRegExp doc (fs1 @ f # fs2) = applyFilters newRegExp doc (fs1 @ fs2)"
proof -
  from assms(2) have "list_ex enabled (fs1 @ f # fs2)" by auto
  then show ?thesis
    unfolding applyFilters_eq [OF assms(2)] applyFilters_eq [OF \<open>list_ex enabled (fs1 @ f # fs2)\<close>]
    using assms(1) by auto
qed



text \<open>
  C9. A rule whose text pattern fails regular-expression construction matches no item.
  Removing it from the rule list changes the display of no item, and when another rule
  is enabled it changes nothing at all in the result. The failure is the \<open>None\<close> branch
  of the model: the function returns. The witness is the pattern \<open>((\<close>.
\<close>

theorem invalid_pattern_rule_never_hides:
  assumes "textPattern f = Some pat" and "pat \<noteq> []" and "newRegExp pat = None"
  shows "\<not> matchesFilter newRegExp p f
       \<and> map style_display (applyFilters newRegExp doc (fs1 @ f # fs2))
         = map style_display (applyFilters newRegExp doc (fs1 @ fs2))
       \<and> (list_ex enabled (fs1 @ fs2)
          \<longrightarrow> applyFilters newRegExp doc (fs1 @ f # fs2) = applyFilters newRegExp doc (fs1 @ fs2))"
proof -
  have none: "\<not> matchesFilter newRegExp x f" for x
    using assms by (rule invalid_pattern_no_match)
  show ?thesis
    using none display_applyFilters_drop_rule [of newRegExp f doc fs1 fs2]
      applyFilters_drop_rule [of newRegExp f fs1 fs2 doc]
    by blast
qed

theorem invalid_pattern_rule_never_hides_witness:
  "parse_re ''(('' [empty_frame] = SyntaxError
   \<and> \<not> matchesFilter RegExp_sub
        \<lparr>filtered_attr = None, style_display = [], socialContext = False,
         firstLink = Some ''/alice'', userNameLink = Some ''/alice'',
         tweetText = Some ''buy spam now'', tweetPhoto = False, videoPlayer = False,
         card_wrapper = False\<rparr>
        \<lparr>rule_id = ''f0'', rule_name = ''broken'', enabled = True, screenName = None,
         textPattern = Some ''(('', isRetweet = None, hasMedia = None\<rparr>
   \<and> map style_display
       (applyFilters RegExp_sub
          [\<lparr>filtered_attr = None, style_display = [], socialContext = False,
            firstLink = Some ''/alice'', userNameLink = Some ''/alice'',
            tweetText = Some ''buy spam now'', tweetPhoto = False, videoPlayer = False,
            card_wrapper = False\<rparr>,
           \<lparr>filtered_attr = None, style_display = [], socialContext = False,
            firstLink = Some ''/bob'', userNameLink = Some ''/bob'',
            tweetText = Some ''hello world'', tweetPhoto = False, videoPlayer = False,
            card_wrapper = False\<rparr>]
          [\<lparr>rule_id = ''f0'', rule_name = ''broken'', enabled = True, screenName = None,
            textPattern = Some ''(('', isRetweet = None, hasMedia = None\<rparr>,
           \<lparr>rule_id = ''f1'', rule_name = ''spam'', enabled = True, screenName = None,
            textPattern = Some ''(spam|ad)'', isRetweet = None, hasMedia = None\<rparr>])
     = [''none'', []]"
proof -
  define bad where "bad = \<lparr>rule_id = ''f0'', rule_name = ''broken'', enabled = True,
    screenName = None, textPattern = Some ''(('', isRetweet = None, hasMedia = None\<rparr>"
  define good where "good = \<lparr>rule_id = ''f1'', rule_name = ''spam'', enabled = True,
    screenName = None, textPattern = Some ''(spam|ad)'', isRetweet = None, hasMedia = None\<rparr>"
  define p1 where "p1 = \<lparr>filtered_attr = None, style_display = [], socialContext = False,
            firstLink = Some ''/alice'', userNameLink = Some ''/alice'',
            tweetText = Some ''buy spam now'', tweetPhoto = False, videoPlayer = False,
            card_wrapper = False\<rparr>"
  define p2 where "p2 = \<lparr>filtered_attr = None, style_display = [], socialContext = False,
            firstLink = Some ''/bob'', userNameLink = Some ''/bob'',
            tweetText = Some ''hello world'', tweetPhoto = False, videoPlayer = False,
            card_wrapper = False\<rparr>"
  have h: "textPattern bad = Some ''(('' " "''(('' \<noteq> []" "RegExp_sub ''(('' = None"
    unfolding bad_def by code_simp+
  have e: "parse_re ''(('' [empty_frame] = SyntaxError"
    by code_simp
  have g: "map style_display (applyFilters RegExp_sub [p1, p2] ([] @ [good])) = [''none'', []]"
    unfolding p1_def p2_def good_def by code_simp
  show ?thesis
    using e g invalid_pattern_rule_never_hides
        [of bad "''((''" RegExp_sub p1 "[p1, p2]" "[]" "[good]", OF h]
    unfolding p1_def [symmetric] p2_def [symmetric] bad_def [symmetric] good_def [symmetric]
    by simp
qed


section \<open>Properties of the Navigation Watcher\<close>

lemma name_block_whitelisted:
  assumes "name_block kind columnId columns v currentUrl title st = Some st'"
    and "shouldRecordUrl newURL currentUrl" and "whitelisted_state newURL st"
  shows "whitelisted_state newURL st'"
  using assms unfolding name_block_def whitelisted_state_def
  by (auto split: option.splits access.splits)

lemma checkUrl_whitelisted:
  assumes "whitelisted_state newURL st"
  shows "whitelisted_state newURL (checkUrl newURL columnId columns v st)"
proof (cases "location_href v")
  case Denied
  with assms show ?thesis by (simp add: checkUrl_def)
next
  case (Got h)
  show ?thesis
  proof (cases h)
    case None
    with Got assms show ?thesis by (simp add: checkUrl_def)
  next
    case (Some currentUrl)
    define st2 where "st2 = st\<lparr>lastUrl := currentUrl, lastRecordedUrl := currentUrl\<rparr>"
    have st1: "whitelisted_state newURL (st\<lparr>lastUrl := currentUrl\<rparr>)"
      using assms by (simp add: whitelisted_state_def)
    have st2: "whitelisted_state newURL st2"
      using assms by (simp add: whitelisted_state_def st2_def)
    have blk: "whitelisted_state newURL done_st"
      if "name_block kind columnId columns v currentUrl title st2 = Some done_st"
        and "shouldRecordUrl newURL currentUrl" for kind title done_st
      using name_block_whitelisted [OF that st2] .
    have deliver: "whitelisted_state newURL (st2\<lparr>calls := calls st2 @ [(currentUrl, title)]\<rparr>)"
      if "shouldRecordUrl newURL currentUrl" for title
      using st2 that by (simp add: whitelisted_state_def)
    show ?thesis
      using Got Some assms st1 blk deliver
      unfolding checkUrl_def Let_def st2_def
      by (auto split: option.splits if_splits)
  qed
qed

lemma tryGetName_whitelisted:
  assumes "whitelisted_state newURL st" and "shouldRecordUrl newURL (retry_url r)"
  shows "whitelisted_state newURL (tryGetName r doc st)"
  using assms unfolding tryGetName_def whitelisted_state_def Let_def
  by (auto split: option.splits if_splits)

lemma fire_whitelisted:
  assumes "whitelisted_state newURL st"
  shows "whitelisted_state newURL (fire i doc st)"
proof (cases "i < length (timers st)")
  case False
  with assms show ?thesis by (simp add: fire_def)
next
  case True
  have all: "\<forall>r\<in>set (timers st). shouldRecordUrl newURL (retry_url r)"
    using assms by (simp add: whitelisted_state_def list_all_iff)
  with True have "shouldRecordUrl newURL (retry_url (timers st ! i))" by simp
  moreover have "whitelisted_state newURL
      (st\<lparr>timers := take i (timers st) @ drop (Suc i) (timers st)\<rparr>)"
    using assms all
    by (auto simp: whitelisted_state_def list_all_iff dest: in_set_takeD in_set_dropD)
  ultimately show ?thesis
    using True by (simp add: fire_def tryGetName_whitelisted)
qed

lemma run_whitelisted:
  "whitelisted_state newURL st \<Longrightarrow> whitelisted_state newURL (run newURL columnId evs st)"
proof (induction evs arbitrary: st)
  case Nil
  then show ?case by simp
next
  case (Cons ev evs)
  have "whitelisted_state newURL (step newURL columnId ev st)"
    using Cons.prems by (cases ev) (simp_all add: checkUrl_whitelisted fire_whitelisted)
  then show ?case using Cons.IH by simp
qed

lemma name_block_pending:
  assumes "name_block kind columnId columns v currentUrl title st = Some st'"
  shows "pending st' \<le> pending st + 1 \<and> lastUrl st' = lastUrl st"
  using assms unfolding name_block_def pending_def
  by (auto split: option.splits access.splits)

lemma checkUrl_pending: "pending (checkUrl newURL columnId columns v st) \<le> pending st + 1"
proof (cases "location_href v")
  case Denied
  then show ?thesis by (simp add: checkUrl_def)
next
  case (Got h)
  show ?thesis
  proof (cases h)
    case None
    with Got show ?thesis by (simp add: checkUrl_def)
  next
    case (Some currentUrl)
    define st2 where "st2 = st\<lparr>lastUrl := currentUrl, lastRecordedUrl := currentUrl\<rparr>"
    have p2: "pending st2 = pending st" by (simp add: st2_def pending_def)
    have blk: "pending done_st \<le> pending st + 1"
      if "name_block kind columnId columns v currentUrl title st2 = Some done_st"
      for kind title done_st
      using name_block_pending [OF that] p2 by simp
    have deliver: "pending (st2\<lparr>calls := calls st2 @ [(currentUrl, title)]\<rparr>) \<le> pending st + 1"
      for title
      by (simp add: st2_def pending_def)
    have st1: "pending (st\<lparr>lastUrl := currentUrl\<rparr>) \<le> pending st + 1"
      by (simp add: pending_def)
    show ?thesis
      using Got Some blk deliver st1
      unfolding checkUrl_def Let_def st2_def
      by (auto split: option.splits if_splits)
  qed
qed

lemma checkUrl_same_url:
  assumes "location_href v = Got (Some u)" and "lastUrl st = u"
  shows "checkUrl newURL columnId columns v st = st"
  using assms by (simp add: checkUrl_def)

lemma checkUrl_empty_url:
  assumes "location_href v = Got (Some [])"
  shows "checkUrl newURL columnId columns v st = st"
  using assms by (simp add: checkUrl_def)

lemma checkUrl_lastUrl:
  assumes "location_href v = Got (Some u)" and "u \<noteq> []"
  shows "lastUrl (checkUrl newURL columnId columns v st) = u"
proof (cases "u = lastUrl st")
  case True
  with assms show ?thesis by (simp add: checkUrl_def)
next
  case False
  define st2 where "st2 = st\<lparr>lastUrl := u, lastRecordedUrl := u\<rparr>"
  have blk: "lastUrl done_st = u"
    if "name_block kind columnId columns v u title st2 = Some done_st" for kind title done_st
    using name_block_pending [OF that] by (simp add: st2_def)
  show ?thesis
    using assms False blk
    unfolding checkUrl_def Let_def st2_def
    by (auto split: option.splits if_splits)
qed

lemma tryGetName_pending:
  "pending (tryGetName r doc st) = pending st + 1
   \<and> lastUrl (tryGetName r doc st) = lastUrl st"
  unfolding tryGetName_def pending_def Let_def
  by (auto split: option.splits if_splits)

lemma fire_pending:
  "pending (fire i doc st) = pending st \<and> lastUrl (fire i doc st) = lastUrl st"
proof (cases "i < length (timers st)")
  case False
  then show ?thesis by (simp add: fire_def)
next
  case True
  then have "pending (st\<lparr>timers := take i (timers st) @ drop (Suc i) (timers st)\<rparr>) + 1
             = pending st"
    by (simp add: pending_def)
  with True show ?thesis
    using tryGetName_pending
      [of "timers st ! i" doc "st\<lparr>timers := take i (timers st) @ drop (Suc i) (timers st)\<rparr>"]
    by (simp add: fire_def)
qed

lemma run_pending:
  assumes "list_all (observes u) evs"
  shows "pending (run newURL columnId evs st)
         \<le> pending st + (if lastUrl st = u \<or> u = [] then 0 else 1)"
  using assms
proof (induction evs arbitrary: st)
  case Nil
  then show ?case by simp
next
  case (Cons ev evs)
  then have rest: "list_all (observes u) evs" by simp
  show ?case
  proof (cases ev)
    case (Fire i doc)
    then show ?thesis
      using Cons.IH [OF rest, of "fire i doc st"] fire_pending [of i doc st] by simp
  next
    case (Check columns v)
    with Cons.prems have loc: "location_href v = Got (Some u)"
      by (simp add: observes_def)
    show ?thesis
    proof (cases "lastUrl st = u \<or> u = []")
      case True
      then have "checkUrl newURL columnId columns v st = st"
        using loc checkUrl_same_url checkUrl_empty_url by blast
      with Check True show ?thesis
        using Cons.IH [OF rest, of st] by simp
    next
      case False
      then have "lastUrl (checkUrl newURL columnId columns v st) = u"
        using loc checkUrl_lastUrl by blast
      then have "pending (run newURL columnId evs (checkUrl newURL columnId columns v st))
                 \<le> pending (checkUrl newURL columnId columns v st)"
        using Cons.IH [OF rest, of "checkUrl newURL columnId columns v st"] by simp
      also have "\<dots> \<le> pending st + 1" by (rule checkUrl_pending)
      finally show ?thesis using Check False by simp
    qed
  qed
qed

lemma run_no_timers:
  "timers st = [] \<Longrightarrow> run newURL columnId (map (Fire 0) docs) st = st"
  by (induction docs) (simp_all add: fire_def)

lemma fire_miss:
  assumes "timers st = [r]" and "misses (retry_kind r) doc"
    and "retry_attempt r < retry_maxAttempts r"
  shows "fire 0 doc st =
         st\<lparr>timers := [r\<lparr>retry_attempt := retry_attempt r + 1,
                          retry_delay := retry_attempt r * 300\<rparr>],
            extractions := extractions st + 1\<rparr>"
  using assms unfolding fire_def tryGetName_def misses_def Let_def
  by (auto split: option.splits)

lemma fire_miss_last:
  assumes "timers st = [r]" and "misses (retry_kind r) doc"
    and "\<not> retry_attempt r < retry_maxAttempts r"
  shows "fire 0 doc st =
         st\<lparr>timers := [], extractions := extractions st + 1,
            calls := calls st @ [(retry_url r, retry_title r)]\<rparr>"
  using assms unfolding fire_def tryGetName_def misses_def Let_def
  by (auto split: option.splits)

lemma fire_hit:
  assumes "timers st = [r]" and "getName (retry_kind r) doc = Some n" and "n \<noteq> []"
  shows "fire 0 doc st =
         st\<lparr>timers := [], extractions := extractions st + 1,
            resolvedNames := (resolvedNames st)(retry_url r \<mapsto> n),
            calls := calls st @ [(retry_url r, n)]\<rparr>"
  using assms unfolding fire_def tryGetName_def Let_def
  by simp

lemma chain_misses:
  assumes "timers st = [r]" and "list_all (misses (retry_kind r)) docs"
    and "retry_attempt r + length docs \<le> retry_maxAttempts r"
  shows "run newURL columnId (map (Fire 0) docs) st =
         st\<lparr>timers := [r\<lparr>retry_attempt := retry_attempt r + length docs,
                          retry_delay := (if docs = [] then retry_delay r
                                          else (retry_attempt r + length docs - 1) * 300)\<rparr>],
            extractions := extractions st + length docs\<rparr>"
  using assms
proof (induction docs arbitrary: st r)
  case Nil
  then show ?case by simp
next
  case (Cons doc docs)
  define r' where "r' = r\<lparr>retry_attempt := retry_attempt r + 1,
                          retry_delay := retry_attempt r * 300\<rparr>"
  define st' where "st' = st\<lparr>timers := [r'], extractions := extractions st + 1\<rparr>"
  have f: "fire 0 doc st = st'"
    unfolding st'_def r'_def using Cons.prems by (intro fire_miss) simp_all
  have "run newURL columnId (map (Fire 0) docs) st' =
        st'\<lparr>timers := [r'\<lparr>retry_attempt := retry_attempt r' + length docs,
                           retry_delay := (if docs = [] then retry_delay r'
                                           else (retry_attempt r' + length docs - 1) * 300)\<rparr>],
            extractions := extractions st' + length docs\<rparr>"
    using Cons.prems by (intro Cons.IH) (simp_all add: st'_def r'_def)
  then show ?case
    using f by (simp add: st'_def r'_def)
qed

lemma chain_bound:
  assumes "timers st = [r]" and "retry_attempt r \<le> retry_maxAttempts r"
  shows "extractions (run newURL columnId (map (Fire 0) docs) st)
         \<le> extractions st + (retry_maxAttempts r + 1 - retry_attempt r)"
  using assms
proof (induction docs arbitrary: st r)
  case Nil
  then show ?case by simp
next
  case (Cons doc docs)
  show ?case
  proof (cases "misses (retry_kind r) doc")
    case False
    then obtain n where n: "getName (retry_kind r) doc = Some n" "n \<noteq> []"
      by (auto simp: misses_def split: option.splits)
    have "timers (fire 0 doc st) = []" "extractions (fire 0 doc st) = extractions st + 1"
      unfolding fire_hit [OF Cons.prems(1) n] by simp_all
    then show ?thesis
      using Cons.prems(2) by (simp add: run_no_timers)
  next
    case True
    show ?thesis
    proof (cases "retry_attempt r < retry_maxAttempts r")
      case False
      have "timers (fire 0 doc st) = []" "extractions (fire 0 doc st) = extractions st + 1"
        unfolding fire_miss_last [OF Cons.prems(1) True False] by simp_all
      then show ?thesis
        using Cons.prems(2) by (simp add: run_no_timers)
    next
      case less: True
      define r' where "r' = r\<lparr>retry_attempt := retry_attempt r + 1,
                              retry_delay := retry_attempt r * 300\<rparr>"
      have t: "timers (fire 0 doc st) = [r']"
        and e: "extractions (fire 0 doc st) = extractions st + 1"
        unfolding fire_miss [OF Cons.prems(1) True less] r'_def by simp_all
      have "extractions (run newURL columnId (map (Fire 0) docs) (fire 0 doc st))
            \<le> extractions (fire 0 doc st) + (retry_maxAttempts r' + 1 - retry_attempt r')"
        using less by (intro Cons.IH [OF t]) (simp add: r'_def)
      then show ?thesis
        using e less by (simp add: r'_def)
    qed
  qed
qed

lemma checkUrl_starts_list_chain:
  assumes "location_href v = Got (Some u)" and "u \<noteq> []" and "u \<noteq> lastUrl s"
    and "u \<noteq> lastRecordedUrl s" and "shouldRecordUrl newURL u"
    and "str_includes u ''/i/lists/''" and "cachedName s u = None"
    and "storedTitle ListName columnId columns u = None"
    and "view_document v = Got (Some d)"
  shows "checkUrl newURL columnId columns v s =
         s\<lparr>lastUrl := u, lastRecordedUrl := u,
           timers := timers s @
             [\<lparr>retry_kind = ListName, retry_url = u, retry_title = getTitleFromUrl newURL u,
               retry_attempt = 1, retry_maxAttempts = 5, retry_delay = 500\<rparr>]\<rparr>"
  using assms by (simp add: checkUrl_def name_block_def cachedName_def Let_def)

lemma getListName_My_List:
  "topNavBar found = Got (Some ''My List@someuser'') \<Longrightarrow> getListName found = Some ''My List''"
proof -
  assume "topNavBar found = Got (Some ''My List@someuser'')"
  moreover have "(let text = trim ''My List@someuser''; atIndex = indexOf text CHR ''@''
         in Some (if atIndex \<noteq> -1 then trim (substring2 text 0 atIndex) else text))
        = Some ''My List''"
    by code_simp
  ultimately show ?thesis by (simp add: getListName_def)
qed

lemma run_append:
  "run newURL columnId (xs @ ys) st = run newURL columnId ys (run newURL columnId xs st)"
  by (induction xs arbitrary: st) simp_all

lemma whitelisted_watcher0: "whitelisted_state newURL watcher0"
  by (simp add: whitelisted_state_def watcher0_def)

lemma checkUrl_twice:
  assumes "location_href v = Got (Some u)"
  shows "checkUrl newURL columnId columns' v (checkUrl newURL columnId columns v st)
         = checkUrl newURL columnId columns v st"
proof (cases "u = []")
  case True
  with assms show ?thesis by (simp add: checkUrl_empty_url)
next
  case False
  with assms have "lastUrl (checkUrl newURL columnId columns v st) = u"
    by (rule checkUrl_lastUrl)
  with assms show ?thesis by (rule checkUrl_same_url)
qed

text \<open>
  C3. From the initial state of a view, after any sequence of triggers and timer firings,
  every call of \<open>onUrlChange\<close> made is for a URL that passes \<open>shouldRecordUrl\<close>. A
  trigger that observes the same URL as the trigger before it changes nothing. While
  every trigger observes the same URL, at most one delivery is added, counting a pending
  retry chain as the one call it ends in; from the initial state at most one call is made.
\<close>

theorem onUrlChange_whitelisted_and_deduplicated:
  "list_all (\<lambda>c. shouldRecordUrl newURL (fst c)) (calls (run newURL columnId evs watcher0))
   \<and> (location_href v = Got (Some u) \<longrightarrow>
        checkUrl newURL columnId columns' v (checkUrl newURL columnId columns v st)
        = checkUrl newURL columnId columns v st)
   \<and> (list_all (observes u) evs \<longrightarrow>
        length (calls (run newURL columnId evs st)) + length (timers (run newURL columnId evs st))
        \<le> length (calls st) + length (timers st) + 1)
   \<and> (list_all (observes u) evs \<longrightarrow> length (calls (run newURL columnId evs watcher0)) \<le> 1)"
proof (intro conjI impI)
  show "list_all (\<lambda>c. shouldRecordUrl newURL (fst c)) (calls (run newURL columnId evs watcher0))"
    using run_whitelisted [OF whitelisted_watcher0, of newURL columnId evs]
    by (simp add: whitelisted_state_def)
next
  assume "location_href v = Got (Some u)"
  then show "checkUrl newURL columnId columns' v (checkUrl newURL columnId columns v st)
        = checkUrl newURL columnId columns v st"
    by (rule checkUrl_twice)
next
  assume "list_all (observes u) evs"
  then have "pending (run newURL columnId evs st) \<le> pending st + 1"
    using run_pending [of u evs newURL columnId st] by (simp split: if_splits)
  then show "length (calls (run newURL columnId evs st)) + length (timers (run newURL columnId evs st))
        \<le> length (calls st) + length (timers st) + 1"
    by (simp add: pending_def)
next
  assume "list_all (observes u) evs"
  then have "pending (run newURL columnId evs watcher0) \<le> pending watcher0 + 1"
    using run_pending [of u evs newURL columnId watcher0] by (simp split: if_splits)
  then show "length (calls (run newURL columnId evs watcher0)) \<le> 1"
    by (simp add: pending_def watcher0_def)
qed

theorem onUrlChange_whitelisted_and_deduplicated_witness:
  "list_all (\<lambda>c. shouldRecordUrl simple_URL (fst c))
     (calls (run simple_URL None
        [Check [] \<lparr>location_href = Got (Some ''https://x.com/i/lists/12345''),
                    view_document = Got (Some \<lparr>topNavBar = Got None, userNameBlock = Got None\<rparr>)\<rparr>,
         Check [] \<lparr>location_href = Got (Some ''https://x.com/i/lists/12345''),
                    view_document = Got (Some \<lparr>topNavBar = Got None, userNameBlock = Got None\<rparr>)\<rparr>,
         Fire 0 \<lparr>topNavBar = Got (Some ''My List@someuser''), userNameBlock = Got None\<rparr>,
         Check [] \<lparr>location_href = Got (Some ''https://x.com/i/lists/12345''),
                    view_document = Got (Some \<lparr>topNavBar = Got None, userNameBlock = Got None\<rparr>)\<rparr>]
        watcher0))
   \<and> length (calls (run simple_URL None
        [Check [] \<lparr>location_href = Got (Some ''https://x.com/i/lists/12345''),
                    view_document = Got (Some \<lparr>topNavBar = Got None, userNameBlock = Got None\<rparr>)\<rparr>,
         Check [] \<lparr>location_href = Got (Some ''https://x.com/i/lists/12345''),
                    view_document = Got (Some \<lparr>topNavBar = Got None, userNameBlock = Got None\<rparr>)\<rparr>,
         Fire 0 \<lparr>topNavBar = Got (Some ''My List@someuser''), userNameBlock = Got None\<rparr>,
         Check [] \<lparr>location_href = Got (Some ''https://x.com/i/lists/12345''),
                    view_document = Got (Some \<lparr>topNavBar = Got None, userNameBlock = Got None\<rparr>)\<rparr>]
        watcher0)) \<le> 1
   \<and> calls (run simple_URL None
        [Check [] \<lparr>location_href = Got (Some ''https://x.com/i/lists/12345''),
                    view_document = Got (Some \<lparr>topNavBar = Got None, userNameBlock = Got None\<rparr>)\<rparr>,
         Check [] \<lparr>location_href = Got (Some ''https://x.com/i/lists/12345''),
                    view_document = Got (Some \<lparr>topNavBar = Got None, userNameBlock = Got None\<rparr>)\<rparr>,
         Fire 0 \<lparr>topNavBar = Got (Some ''My List@someuser''), userNameBlock = Got None\<rparr>,
         Check [] \<lparr>location_href = Got (Some ''https://x.com/i/lists/12345''),
                    view_document = Got (Some \<lparr>topNavBar = Got None, userNameBlock = Got None\<rparr>)\<rparr>]
        watcher0)
     = [(''https://x.com/i/lists/12345'', ''My List'')]"
proof -
  define v where "v = \<lparr>location_href = Got (Some ''https://x.com/i/lists/12345''),
                    view_document = Got (Some \<lparr>topNavBar = Got None, userNameBlock = Got None\<rparr>)\<rparr>"
  define found where
    "found = \<lparr>topNavBar = Got (Some ''My List@someuser''), userNameBlock = Got None\<rparr>"
  define evs where "evs = [Check [] v, Check [] v, Fire 0 found, Check [] v]"
  have obs: "list_all (observes ''https://x.com/i/lists/12345'') evs"
    by (simp add: evs_def observes_def v_def)
  have c: "calls (run simple_URL None evs watcher0) = [(''https://x.com/i/lists/12345'', ''My List'')]"
    unfolding evs_def v_def found_def by code_simp
  have "list_all (\<lambda>c. shouldRecordUrl simple_URL (fst c)) (calls (run simple_URL None evs watcher0))
        \<and> length (calls (run simple_URL None evs watcher0)) \<le> 1"
    using obs
      onUrlChange_whitelisted_and_deduplicated
        [of simple_URL None evs v "''https://x.com/i/lists/12345''" "[]" "[]" watcher0]
    by blast
  with c show ?thesis
    unfolding evs_def v_def found_def by blast
qed

text \<open>
  C5. A trigger on a list URL with no cached name (in memory or persisted) and an
  accessible document schedules the first extraction 500 ms later, with the URL-derived
  title as the default. From there the chain makes at most 5 extractions, whatever the
  document reads; after \<open>k\<close> failed attempts (\<open>0 < k < 5\<close>) the next attempt is
  scheduled \<open>k\<close> times 300 ms later; an attempt that finds the landmark text
  \<open>My List@someuser\<close> after fewer than 5 failures delivers the title \<open>My List\<close> and
  caches it; after 5 failures the default title is delivered and nothing is cached.
\<close>

theorem list_title_retry_chain:
  assumes "timers st = [\<lparr>retry_kind = ListName, retry_url = u, retry_title = title,
                          retry_attempt = 1, retry_maxAttempts = 5, retry_delay = 500\<rparr>]"
    and "list_all (misses ListName) docs"
  shows "(location_href v = Got (Some u') \<and> u' \<noteq> [] \<and> u' \<noteq> lastUrl s
            \<and> u' \<noteq> lastRecordedUrl s \<and> shouldRecordUrl newURL u'
            \<and> str_includes u' ''/i/lists/'' \<and> cachedName s u' = None
            \<and> storedTitle ListName columnId columns u' = None
            \<and> view_document v = Got (Some d)
          \<longrightarrow> checkUrl newURL columnId columns v s =
              s\<lparr>lastUrl := u', lastRecordedUrl := u',
                timers := timers s @
                  [\<lparr>retry_kind = ListName, retry_url = u',
                    retry_title = getTitleFromUrl newURL u',
                    retry_attempt = 1, retry_maxAttempts = 5, retry_delay = 500\<rparr>]\<rparr>)
       \<and> extractions (run newURL columnId (map (Fire 0) any_docs) st) \<le> extractions st + 5
       \<and> (0 < length docs \<and> length docs < 5
          \<longrightarrow> timers (run newURL columnId (map (Fire 0) docs) st) =
              [\<lparr>retry_kind = ListName, retry_url = u, retry_title = title,
                retry_attempt = length docs + 1, retry_maxAttempts = 5,
                retry_delay = length docs * 300\<rparr>])
       \<and> (length docs < 5 \<and> topNavBar found = Got (Some ''My List@someuser'')
          \<longrightarrow> (let st' = run newURL columnId (map (Fire 0) (docs @ [found])) st
               in calls st' = calls st @ [(u, ''My List'')]
                \<and> resolvedNames st' = (resolvedNames st)(u \<mapsto> ''My List'')
                \<and> timers st' = []
                \<and> extractions st' = extractions st + length docs + 1))
       \<and> (length docs = 5
          \<longrightarrow> (let st' = run newURL columnId (map (Fire 0) docs) st
               in calls st' = calls st @ [(u, title)]
                \<and> resolvedNames st' = resolvedNames st
                \<and> timers st' = []))"
proof (intro conjI impI)
  assume "location_href v = Got (Some u') \<and> u' \<noteq> [] \<and> u' \<noteq> lastUrl s
            \<and> u' \<noteq> lastRecordedUrl s \<and> shouldRecordUrl newURL u'
            \<and> str_includes u' ''/i/lists/'' \<and> cachedName s u' = None
            \<and> storedTitle ListName columnId columns u' = None
            \<and> view_document v = Got (Some d)"
  then show "checkUrl newURL columnId columns v s =
              s\<lparr>lastUrl := u', lastRecordedUrl := u',
                timers := timers s @
                  [\<lparr>retry_kind = ListName, retry_url = u',
                    retry_title = getTitleFromUrl newURL u',
                    retry_attempt = 1, retry_maxAttempts = 5, retry_delay = 500\<rparr>]\<rparr>"
    using checkUrl_starts_list_chain by blast
next
  show "extractions (run newURL columnId (map (Fire 0) any_docs) st) \<le> extractions st + 5"
    using chain_bound [OF assms(1), of newURL columnId any_docs] by simp
next
  assume "0 < length docs \<and> length docs < 5"
  then show "timers (run newURL columnId (map (Fire 0) docs) st) =
              [\<lparr>retry_kind = ListName, retry_url = u, retry_title = title,
                retry_attempt = length docs + 1, retry_maxAttempts = 5,
                retry_delay = length docs * 300\<rparr>]"
    using assms(2) by (subst chain_misses [OF assms(1)]) auto
next
  assume a: "length docs < 5 \<and> topNavBar found = Got (Some ''My List@someuser'')"
  define r where "r = \<lparr>retry_kind = ListName, retry_url = u, retry_title = title,
      retry_attempt = 1 + length docs, retry_maxAttempts = 5,
      retry_delay = (if docs = [] then 500 else (1 + length docs - 1) * 300)\<rparr>"
  define mid where "mid = st\<lparr>timers := [r], extractions := extractions st + length docs\<rparr>"
  have m: "run newURL columnId (map (Fire 0) docs) st = mid"
    unfolding mid_def r_def using assms(2) a
    by (subst chain_misses [OF assms(1)]) auto
  have "getName (retry_kind r) found = Some ''My List''"
    using a by (simp add: r_def getName_def getListName_My_List)
  then have "fire 0 found mid =
         mid\<lparr>timers := [], extractions := extractions mid + 1,
            resolvedNames := (resolvedNames mid)(retry_url r \<mapsto> ''My List''),
            calls := calls mid @ [(retry_url r, ''My List'')]\<rparr>"
    by (intro fire_hit) (simp_all add: mid_def)
  then show "let st' = run newURL columnId (map (Fire 0) (docs @ [found])) st
               in calls st' = calls st @ [(u, ''My List'')]
                \<and> resolvedNames st' = (resolvedNames st)(u \<mapsto> ''My List'')
                \<and> timers st' = []
                \<and> extractions st' = extractions st + length docs + 1"
    by (simp add: run_append m Let_def) (simp add: mid_def r_def)
next
  assume a: "length docs = 5"
  then have ne: "docs \<noteq> []" by auto
  define r where "r = \<lparr>retry_kind = ListName, retry_url = u, retry_title = title,
      retry_attempt = 5, retry_maxAttempts = 5, retry_delay = 1200\<rparr>"
  define mid where "mid = st\<lparr>timers := [r], extractions := extractions st + 4\<rparr>"
  have split: "docs = butlast docs @ [last docs]"
    using ne by simp
  have b: "list_all (misses ListName) (butlast docs)" "misses ListName (last docs)"
    using assms(2) ne by (auto simp: list_all_iff dest: in_set_butlastD)
  have len: "length (butlast docs) = 4" using a by simp
  have "0 < length (butlast docs)" unfolding len by simp
  then have bne: "butlast docs \<noteq> []" by (simp del: length_butlast)
  have m: "run newURL columnId (map (Fire 0) (butlast docs)) st = mid"
    unfolding mid_def r_def using b(1) len bne
    by (subst chain_misses [OF assms(1)]) auto
  have "fire 0 (last docs) mid =
         mid\<lparr>timers := [], extractions := extractions mid + 1,
            calls := calls mid @ [(retry_url r, retry_title r)]\<rparr>"
    using b(2) by (intro fire_miss_last) (simp_all add: mid_def r_def)
  moreover have "run newURL columnId (map (Fire 0) docs) st = fire 0 (last docs) mid"
    by (subst split) (simp add: run_append m del: append_butlast_last_id)
  ultimately show "let st' = run newURL columnId (map (Fire 0) docs) st
               in calls st' = calls st @ [(u, title)]
                \<and> resolvedNames st' = resolvedNames st
                \<and> timers st' = []"
    by (simp add: Let_def mid_def r_def)
qed

theorem list_title_retry_chain_witness:
  "calls (run simple_URL None
      (map (Fire 0)
         [\<lparr>topNavBar = Got None, userNameBlock = Got None\<rparr>,
          \<lparr>topNavBar = Got None, userNameBlock = Got None\<rparr>,
          \<lparr>topNavBar = Got (Some ''My List@someuser''), userNameBlock = Got None\<rparr>])
      (checkUrl simple_URL None []
         \<lparr>location_href = Got (Some ''https://x.com/i/lists/12345''),
          view_document = Got (Some \<lparr>topNavBar = Got None, userNameBlock = Got None\<rparr>)\<rparr>
         watcher0))
   = [(''https://x.com/i/lists/12345'', ''My List'')]
   \<and> extractions (run simple_URL None
      (map (Fire 0)
         [\<lparr>topNavBar = Got None, userNameBlock = Got None\<rparr>,
          \<lparr>topNavBar = Got None, userNameBlock = Got None\<rparr>,
          \<lparr>topNavBar = Got (Some ''My List@someuser''), userNameBlock = Got None\<rparr>])
      (checkUrl simple_URL None []
         \<lparr>location_href = Got (Some ''https://x.com/i/lists/12345''),
          view_document = Got (Some \<lparr>topNavBar = Got None, userNameBlock = Got None\<rparr>)\<rparr>
         watcher0))
   = 3
   \<and> calls (run simple_URL None
      (map (Fire 0)
         [\<lparr>topNavBar = Got None, userNameBlock = Got None\<rparr>,
          \<lparr>topNavBar = Got None, userNameBlock = Got None\<rparr>,
          \<lparr>topNavBar = Got None, userNameBlock = Got None\<rparr>,
          \<lparr>topNavBar = Got None, userNameBlock = Got None\<rparr>,
          \<lparr>topNavBar = Got None, userNameBlock = Got None\<rparr>])
      (checkUrl simple_URL None []
         \<lparr>location_href = Got (Some ''https://x.com/i/lists/12345''),
          view_document = Got (Some \<lparr>topNavBar = Got None, userNameBlock = Got None\<rparr>)\<rparr>
         watcher0))
   = [(''https://x.com/i/lists/12345'', ''List'')]"
proof -
  define v where "v = \<lparr>location_href = Got (Some ''https://x.com/i/lists/12345''),
          view_document = Got (Some \<lparr>topNavBar = Got None, userNameBlock = Got None\<rparr>)\<rparr>"
  define miss where "miss = \<lparr>topNavBar = Got None, userNameBlock = Got None\<rparr>"
  define found where
    "found = \<lparr>topNavBar = Got (Some ''My List@someuser''), userNameBlock = Got None\<rparr>"
  define st where "st = checkUrl simple_URL None [] v watcher0"
  have t: "timers st =
      [\<lparr>retry_kind = ListName, retry_url = ''https://x.com/i/lists/12345'',
        retry_title = ''List'', retry_attempt = 1, retry_maxAttempts = 5, retry_delay = 500\<rparr>]"
    unfolding st_def v_def by code_simp
  have c: "calls st = []" "extractions st = 0"
    unfolding st_def v_def by code_simp+
  have m: "list_all (misses ListName) [miss, miss]"
    unfolding miss_def by code_simp
  have m5: "list_all (misses ListName) [miss, miss, miss, miss, miss]"
    unfolding miss_def by code_simp
  have f: "topNavBar found = Got (Some ''My List@someuser'')"
    by (simp add: found_def)
  have "calls (run simple_URL None (map (Fire 0) ([miss, miss] @ [found])) st)
          = [(''https://x.com/i/lists/12345'', ''My List'')]
        \<and> extractions (run simple_URL None (map (Fire 0) ([miss, miss] @ [found])) st) = 3"
    using list_title_retry_chain [OF t m, of v "[]" st simple_URL None "[]" miss "[]" found] f c
    by (simp add: Let_def)
  moreover have "calls (run simple_URL None (map (Fire 0) [miss, miss, miss, miss, miss]) st)
          = [(''https://x.com/i/lists/12345'', ''List'')]"
    using list_title_retry_chain [OF t m5, of v "[]" st simple_URL None "[]" miss "[]" found] c
    by (simp add: Let_def)
  ultimately show ?thesis
    unfolding st_def v_def miss_def found_def by simp
qed

text \<open>
  C4, evaluated where the code leaves the claim. The persisted column of this view holds
  the URL being resolved and the title \<open>List\<close>, which is the URL-derived default title
  of a list URL. The check compares the stored title with the Japanese constant only, so
  the stored default is delivered as the resolved name and seeded into the memory cache,
  and no DOM extraction is scheduled although the document holds the list's name.
\<close>

theorem stored_default_title_served_as_resolved_name:
  "getTitleFromUrl simple_URL ''https://x.com/i/lists/12345'' = ''List''
   \<and> storedTitle ListName (Some ''col-1'')
        [\<lparr>col_id = ''col-1'', col_title = ''List'',
          col_currentUrl = ''https://x.com/i/lists/12345'', col_config_type = Column_type\<rparr>]
        ''https://x.com/i/lists/12345'' = Some ''List''
   \<and> calls (checkUrl simple_URL (Some ''col-1'')
        [\<lparr>col_id = ''col-1'', col_title = ''List'',
          col_currentUrl = ''https://x.com/i/lists/12345'', col_config_type = Column_type\<rparr>]
        \<lparr>location_href = Got (Some ''https://x.com/i/lists/12345''),
         view_document =
           Got (Some \<lparr>topNavBar = Got (Some ''My List@someuser''), userNameBlock = Got None\<rparr>)\<rparr>
        watcher0)
     = [(''https://x.com/i/lists/12345'', ''List'')]
   \<and> timers (checkUrl simple_URL (Some ''col-1'')
        [\<lparr>col_id = ''col-1'', col_title = ''List'',
          col_currentUrl = ''https://x.com/i/lists/12345'', col_config_type = Column_type\<rparr>]
        \<lparr>location_href = Got (Some ''https://x.com/i/lists/12345''),
         view_document =
           Got (Some \<lparr>topNavBar = Got (Some ''My List@someuser''), userNameBlock = Got None\<rparr>)\<rparr>
        watcher0)
     = []
   \<and> resolvedNames (checkUrl simple_URL (Some ''col-1'')
        [\<lparr>col_id = ''col-1'', col_title = ''List'',
          col_currentUrl = ''https://x.com/i/lists/12345'', col_config_type = Column_type\<rparr>]
        \<lparr>location_href = Got (Some ''https://x.com/i/lists/12345''),
         view_document =
           Got (Some \<lparr>topNavBar = Got (Some ''My List@someuser''), userNameBlock = Got None\<rparr>)\<rparr>
        watcher0) ''https://x.com/i/lists/12345''
     = Some ''List''"
  by code_simp

end
